theory Spec2Isabelle
  imports Complex_Main
begin

section \<open>Peak detection\<close>

text \<open>
  \<^verbatim>\<open>detecteer_Rpieken\<close> calls \<^verbatim>\<open>scipy.signal.find_peaks(x, height=h)\<close>. That call
  first collects the local maxima of \<^verbatim>\<open>x\<close> with the loop below and then keeps the
  ones whose value is at least \<^verbatim>\<open>h\<close>.
  \<^verbatim>\<open>
    i = 1; i_max = x.shape[0] - 1
    while i < i_max:
        if x[i - 1] < x[i]:
            i_ahead = i + 1
            while i_ahead < i_max and x[i_ahead] == x[i]:
                i_ahead += 1
            if x[i_ahead] < x[i]:
                midpoints[m] = (i + i_ahead - 1) // 2; m += 1
                i = i_ahead
        i += 1
  \<close>
  ECG amplitudes are finite numbers, modelled as rationals; positions are naturals.
  For an empty \<^verbatim>\<open>x\<close> the bound \<^verbatim>\<open>i_max\<close> is \<open>-1\<close> in the source and \<open>0\<close> here; the
  loop is not entered in either case.
\<close>

function ahead :: "rat list \<Rightarrow> nat \<Rightarrow> rat \<Rightarrow> nat \<Rightarrow> nat" where
  "ahead x i_max v j = (if j < i_max \<and> x ! j = v then ahead x i_max v (Suc j) else j)"
  by pat_completeness auto
termination
  by (relation "measure (\<lambda>(x, i_max, v, j). i_max - j)") auto

declare ahead.simps [simp del]

function maxima_from :: "rat list \<Rightarrow> nat \<Rightarrow> nat \<Rightarrow> nat list" where
  "maxima_from x i_max i =
     (if i < i_max then
        (if x ! (i - 1) < x ! i then
           (let i_ahead = ahead x i_max (x ! i) (i + 1) in
            if x ! i_ahead < x ! i
            then ((i + (i_ahead - 1)) div 2) # maxima_from x i_max (i_ahead + 1)
            else maxima_from x i_max (i + 1))
         else maxima_from x i_max (i + 1))
      else [])"
  by pat_completeness auto
termination
proof (relation "measure (\<lambda>(x, i_max, i). i_max - i)")
  show "wf (measure (\<lambda>(x, i_max, i). i_max - i))" by simp
next
  fix x :: "rat list" and i_max i xa :: nat
  assume "i < i_max" and "xa = ahead x i_max (x ! i) (i + 1)"
  moreover have "j \<le> ahead y m v j" for y m v j
  proof (induction y m v j rule: ahead.induct)
    case (1 y m v j)
    show ?case
    proof (cases "j < m \<and> y ! j = v")
      case True
      with "1" have "Suc j \<le> ahead y m v (Suc j)" by simp
      with True show ?thesis by (subst ahead.simps) auto
    next
      case False
      then show ?thesis by (subst ahead.simps) auto
    qed
  qed
  then have "i + 1 \<le> ahead x i_max (x ! i) (i + 1)" .
  ultimately show "((x, i_max, xa + 1), (x, i_max, i)) \<in> measure (\<lambda>(x, i_max, i). i_max - i)"
    by simp
qed auto

declare maxima_from.simps [simp del]

definition local_maxima_1d :: "rat list \<Rightarrow> nat list" where
  "local_maxima_1d x = maxima_from x (length x - 1) 1"

definition find_peaks :: "rat list \<Rightarrow> rat \<Rightarrow> nat list" where
  "find_peaks x height = filter (\<lambda>p. height \<le> x ! p) (local_maxima_1d x)"


section \<open>Data model\<close>

text \<open>
  The table read by \<^verbatim>\<open>pd.read_csv\<close> is a list of rows with the set of column names
  it has; a row carries the values of the columns \<^verbatim>\<open>time\<close> (integer ticks) and
  \<^verbatim>\<open>ECG\<close>, the only ones the program consumes. Reading a column whose name is absent
  raises \<^verbatim>\<open>KeyError\<close>; the row's value for an absent column is never used.
  Elapsed seconds are \<open>(time - time[0]) / 1024\<close>, an exact dyadic fraction, modelled
  as a rational. Arithmetic on finite values is exact in the model; the special values of
  the float columns (\<^verbatim>\<open>NaN\<close>, \<^verbatim>\<open>inf\<close>) are constructors of \<open>fl\<close>.
\<close>

datatype error = ReadError | KeyError string | IndexError | ValueError

datatype fl = Fin rat | PInf | NInf | NaN

record sample =
  time :: int
  ECG :: rat

record 'r frame =
  columns :: "string list"
  rows :: "'r list"

record erow =
  sample :: sample
  timestamp :: rat
  activiteit :: "string option"

record beat =
  index :: nat
  row :: erow
  rr :: fl
  bpm :: fl
  gemiddelde_tijd :: fl

datatype msg =
    Error_fout_opgetreden error
  | Success_geladen
  | Error_misgegaan
  | Info_standaarddata

record session =
  start_meting :: "int option"
  start_lopen :: "int option"
  schoenen_aandoen :: "int option"
  lopen :: "int option"
  hond_uitlaten :: "int option"
  start_herstellen :: "int option"
  weer_lopen :: "int option"
  zitten :: "int option"
  alweer_lopen :: "int option"
  start_traplopen :: "int option"
  zittend_herstellen :: "int option"
  einde_meting :: "int option"
  rpieken_drempel :: "rat option"
  intervallen :: "int list option"
  activiteiten :: "string list option"
  activiteiten_kleuren :: "(string \<times> string) list option"
  df_ecg :: "erow frame option"
  df_ecg_pieken :: "beat list option"
  data_initialized :: "bool option"

definition empty_session :: session where
  "empty_session = \<lparr>start_meting = None, start_lopen = None, schoenen_aandoen = None,
     lopen = None, hond_uitlaten = None, start_herstellen = None, weer_lopen = None,
     zitten = None, alweer_lopen = None, start_traplopen = None, zittend_herstellen = None,
     einde_meting = None, rpieken_drempel = None, intervallen = None, activiteiten = None,
     activiteiten_kleuren = None, df_ecg = None, df_ecg_pieken = None,
     data_initialized = None\<rparr>"

section \<open>Library calls on columns\<close>

text \<open>\<^verbatim>\<open>df[name]\<close>: the column, or \<^verbatim>\<open>KeyError\<close>.\<close>

definition getitem :: "'r frame \<Rightarrow> string \<Rightarrow> ('r \<Rightarrow> 'a) \<Rightarrow> error + 'a list" where
  "getitem df name field =
     (if name \<in> set (columns df) then Inr (map field (rows df)) else Inl (KeyError name))"

text \<open>\<^verbatim>\<open>series.iloc[0]\<close>: the first value, or \<^verbatim>\<open>IndexError\<close> on an empty column.\<close>

fun iloc0 :: "'a list \<Rightarrow> error + 'a" where
  "iloc0 [] = Inl IndexError"
| "iloc0 (x # xs) = Inr x"

text \<open>\<^verbatim>\<open>df.iloc[positions]\<close>: the rows at the positions, each with its index label
  (the table read from the file has the index \<open>0, 1, 2, \<dots>\<close>); a position out of
  range raises \<^verbatim>\<open>IndexError\<close>.\<close>

definition iloc :: "'r list \<Rightarrow> nat list \<Rightarrow> error + (nat \<times> 'r) list" where
  "iloc rs ps =
     (if list_all (\<lambda>p. p < length rs) ps then Inr (map (\<lambda>p. (p, rs ! p)) ps)
      else Inl IndexError)"

text \<open>Python's \<^verbatim>\<open>max\<close> over a column: \<^verbatim>\<open>ValueError\<close> on an empty one.\<close>

fun pymax :: "rat list \<Rightarrow> error + rat" where
  "pymax [] = Inl ValueError"
| "pymax (x # xs) = Inr (foldl max x xs)"

text \<open>
  \<^verbatim>\<open>pd.cut(x, bins=bins, labels=labels, ordered=False)\<close> with the defaults
  \<^verbatim>\<open>right=True, include_lowest=False\<close>: the bin edges must increase and be distinct,
  there must be one label fewer than edges, and a value \<open>t\<close> gets
  \<^verbatim>\<open>ids = bins.searchsorted(t, side='left')\<close>, the number of edges below \<open>t\<close>, and
  then no label (\<^verbatim>\<open>NaN\<close>, here \<open>None\<close>) when \<open>ids\<close> is \<open>0\<close> or the number of edges,
  and the label \<open>labels[ids - 1]\<close> otherwise.
\<close>

definition searchsorted_left :: "int list \<Rightarrow> rat \<Rightarrow> nat" where
  "searchsorted_left bins t = length (filter (\<lambda>b. of_int b < t) bins)"

definition cut1 :: "int list \<Rightarrow> string list \<Rightarrow> rat \<Rightarrow> string option" where
  "cut1 bins labels t =
     (let ids = searchsorted_left bins t in
      if ids = length bins \<or> ids = 0 then None else Some (labels ! (ids - 1)))"

definition cut :: "rat list \<Rightarrow> int list \<Rightarrow> string list \<Rightarrow> error + string option list" where
  "cut x bins labels =
     (if \<not> sorted_wrt (<) bins then Inl ValueError
      else if length labels + 1 \<noteq> length bins then Inl ValueError
      else Inr (map (cut1 bins labels) x))"

text \<open>\<^verbatim>\<open>series.diff()\<close>: \<^verbatim>\<open>NaN\<close> in the first place, then the difference with the
  value before.\<close>

definition diff :: "rat list \<Rightarrow> fl list" where
  "diff xs = map (\<lambda>i. if i = 0 then NaN else Fin (xs ! i - xs ! (i - 1))) [0..<length xs]"

text \<open>\<^verbatim>\<open>series.rolling(window=2).mean()\<close>: \<^verbatim>\<open>NaN\<close> in the first place, then the mean of
  the value and the one before.\<close>

definition rolling2_mean :: "rat list \<Rightarrow> fl list" where
  "rolling2_mean xs =
     map (\<lambda>i. if i = 0 then NaN else Fin ((xs ! (i - 1) + xs ! i) / 2)) [0..<length xs]"

text \<open>\<^verbatim>\<open>c / series\<close> on a float column, for a finite \<open>c\<close>: division by zero gives an
  infinity (\<^verbatim>\<open>NaN\<close> for \<open>0 / 0\<close>), division by an infinity gives zero.\<close>

fun rdiv :: "rat \<Rightarrow> fl \<Rightarrow> fl" where
  "rdiv c (Fin r) =
     (if r = 0 then (if 0 < c then PInf else if c < 0 then NInf else NaN) else Fin (c / r))"
| "rdiv c PInf = Fin 0"
| "rdiv c NInf = Fin 0"
| "rdiv c NaN = NaN"

fun notna :: "fl \<Rightarrow> bool" where
  "notna NaN = False"
| "notna _ = True"


section \<open>The program\<close>

text \<open>\<^verbatim>\<open>detecteer_Rpieken(df, pct_drempel)\<close>, lines 24 to 28.\<close>

definition detecteer_Rpieken :: "erow frame \<Rightarrow> rat \<Rightarrow> error + (nat \<times> erow) list" where
  "detecteer_Rpieken df pct_drempel =
     (case getitem df ''ECG'' (\<lambda>r. ECG (sample r)) of
        Inl e \<Rightarrow> Inl e
      | Inr ecg \<Rightarrow>
          (case pymax ecg of
             Inl e \<Rightarrow> Inl e
           | Inr max_ecg \<Rightarrow>
               (let drempelwaarde = pct_drempel * max_ecg;
                    pieken = find_peaks ecg drempelwaarde
                in iloc (rows df) pieken)))"

text \<open>
  Lines 91 to 94 of \<^verbatim>\<open>initialize_data\<close>: the columns \<^verbatim>\<open>rr\<close>, \<^verbatim>\<open>bpm\<close> and
  \<^verbatim>\<open>gemiddelde_tijd\<close> are added to the table of peaks, then the rows whose \<^verbatim>\<open>rr\<close> is
  \<^verbatim>\<open>NaN\<close> are removed.
\<close>

definition beat_intervals :: "(nat \<times> erow) list \<Rightarrow> beat list" where
  "beat_intervals df_pieken =
     (let ts = map (\<lambda>p. timestamp (snd p)) df_pieken;
          rrs = diff ts;
          bpms = map (rdiv 60) rrs;
          gem = rolling2_mean ts;
          full = map (\<lambda>i. \<lparr>index = fst (df_pieken ! i), row = snd (df_pieken ! i),
                             rr = rrs ! i, bpm = bpms ! i, gemiddelde_tijd = gem ! i\<rparr>)
                   [0..<length df_pieken]
      in filter (\<lambda>b. notna (rr b)) full)"

text \<open>Lines 38 to 76: the configuration stored in the session state. The threshold
  fraction \<^verbatim>\<open>0.6\<close> is the rational \<open>6 / 10\<close>.\<close>

definition set_config :: "session \<Rightarrow> session" where
  "set_config s =
     (let s1 = s\<lparr>start_meting := Some 0, start_lopen := Some 120,
                 schoenen_aandoen := Some 240, lopen := Some 360, hond_uitlaten := Some 420,
                 start_herstellen := Some 2160, weer_lopen := Some 3360, zitten := Some 4020,
                 alweer_lopen := Some 6000, start_traplopen := Some 6480,
                 zittend_herstellen := Some 6780, einde_meting := Some 7320,
                 rpieken_drempel := Some (6 / 10)\<rparr>;
          s2 = s1\<lparr>intervallen := Some
                 [the (start_meting s1), the (start_lopen s1), the (schoenen_aandoen s1),
                  the (lopen s1), the (start_herstellen s1), the (weer_lopen s1),
                  the (zitten s1), the (alweer_lopen s1), the (start_traplopen s1),
                  the (zittend_herstellen s1), the (einde_meting s1)]\<rparr>
      in s2\<lparr>activiteiten := Some
              [''zitten'', ''lopen'', ''schoenen aandoen'', ''lopen'', ''zitten'', ''lopen'',
               ''zitten'', ''lopen'', ''traplopen'', ''zitten''],
            activiteiten_kleuren := Some
              [(''zitten'', ''blue''), (''lopen'', ''green''),
               (''schoenen aandoen'', ''purple''), (''traplopen'', ''red'')]\<rparr>)"

text \<open>
  Lines 79 to 94, the body of the \<^verbatim>\<open>try\<close> up to the stores: the outcome of
  \<^verbatim>\<open>pd.read_csv\<close> on the default file and on the uploaded file (when there is one) are
  arguments. The result is the pair of tables that lines 97 and 98 store, or the
  exception raised.
\<close>

definition try_body ::
  "error + sample frame \<Rightarrow> (error + sample frame) option \<Rightarrow> session
     \<Rightarrow> error + (erow frame \<times> beat list)" where
  "try_body default_file uploaded_file s =
     (case (case uploaded_file of Some f \<Rightarrow> f | None \<Rightarrow> default_file) of
        Inl e \<Rightarrow> Inl e
      | Inr df0 \<Rightarrow>
     (case getitem df0 ''time'' time of
        Inl e \<Rightarrow> Inl e
      | Inr tcol \<Rightarrow>
     (case iloc0 tcol of
        Inl e \<Rightarrow> Inl e
      | Inr t0 \<Rightarrow>
     (let ts = map (\<lambda>t. of_int (t - t0) / 1024) tcol in
      case cut ts (the (intervallen s)) (the (activiteiten s)) of
        Inl e \<Rightarrow> Inl e
      | Inr acts \<Rightarrow>
     (let df = \<lparr>columns = List.insert ''activiteit''
                                (List.insert ''timestamp'' (columns df0)),
                     rows = map (\<lambda>i. \<lparr>sample = rows df0 ! i, timestamp = ts ! i,
                                        activiteit = acts ! i\<rparr>) [0..<length (rows df0)]\<rparr> in
      case detecteer_Rpieken df (the (rpieken_drempel s)) of
        Inl e \<Rightarrow> Inl e
      | Inr pieken \<Rightarrow> Inr (df, beat_intervals pieken))))))"

text \<open>
  \<^verbatim>\<open>initialize_data(uploaded_file=None)\<close>: the value returned (\<open>None\<close> when the function
  falls through its \<^verbatim>\<open>if\<close>), the messages put on the page, and the session state.
\<close>

definition initialize_data ::
  "error + sample frame \<Rightarrow> (error + sample frame) option \<Rightarrow> session
     \<Rightarrow> bool option \<times> msg list \<times> session" where
  "initialize_data default_file uploaded_file s =
     (if data_initialized s = None then
        (let s1 = set_config s in
         case try_body default_file uploaded_file s1 of
           Inr (df, pk) \<Rightarrow>
             (Some True, [],
              s1\<lparr>df_ecg := Some df, df_ecg_pieken := Some pk, data_initialized := Some True\<rparr>)
         | Inl e \<Rightarrow> (Some False, [Error_fout_opgetreden e], s1))
      else (None, [], s))"

text \<open>
  Lines 140 to 147 of \<^verbatim>\<open>homepage\<close>, the part of a page run that loads the data. A
  returned \<open>None\<close> is false in the \<^verbatim>\<open>if\<close>.
\<close>

definition homepage_upload ::
  "error + sample frame \<Rightarrow> (error + sample frame) option \<Rightarrow> session \<Rightarrow> msg list \<times> session" where
  "homepage_upload default_file uploaded_file s =
     (case initialize_data default_file uploaded_file s of
        (r, out, s') \<Rightarrow>
          (if uploaded_file \<noteq> None then
             (if r = Some True then (out @ [Success_geladen], s')
              else (out @ [Error_misgegaan], s'))
           else
             (if r = Some True then (out @ [Info_standaarddata], s') else (out, s'))))"

text \<open>The session states the program reaches from a fresh session.\<close>

inductive reachable :: "session \<Rightarrow> bool" where
  fresh: "reachable empty_session"
| run: "reachable s \<Longrightarrow> homepage_upload d u s = (out, s') \<Longrightarrow> reachable s'"


section \<open>What the peak detector returns\<close>

text \<open>
  A plateau of the signal is a run \<open>l..r\<close> of equal samples. It is a peak when it lies
  strictly inside the signal and the sample before it and the sample after it are both
  strictly lower. \<open>peaks_from x i\<close> are the midpoints of the peak plateaus that start at
  \<open>i\<close> or later.
\<close>

definition plateau_peak :: "rat list \<Rightarrow> nat \<Rightarrow> nat \<Rightarrow> bool" where
  "plateau_peak x l r \<longleftrightarrow>
     0 < l \<and> l \<le> r \<and> r + 1 < length x \<and> (\<forall>k\<in>{l..r}. x ! l = x ! k) \<and>
     x ! (l - 1) < x ! l \<and> x ! (r + 1) < x ! l"

definition peaks_from :: "rat list \<Rightarrow> nat \<Rightarrow> nat set" where
  "peaks_from x i = {p. \<exists>l r. plateau_peak x l r \<and> i \<le> l \<and> p = (l + r) div 2}"

definition ecg_column :: "erow frame \<Rightarrow> rat list" where
  "ecg_column df = map (\<lambda>r. ECG (sample r)) (rows df)"

text \<open>The elapsed times of a table of peaks.\<close>

definition peak_times :: "(nat \<times> erow) list \<Rightarrow> rat list" where
  "peak_times pk = map (\<lambda>p. timestamp (snd p)) pk"

text \<open>Example tables: a file as read, with the columns \<^verbatim>\<open>time\<close> and \<^verbatim>\<open>ECG\<close>, and a
  table that already has its elapsed time and activity columns.\<close>

definition frame_of :: "(int \<times> rat) list \<Rightarrow> sample frame" where
  "frame_of vs = \<lparr>columns = [''time'', ''ECG''],
                   rows = map (\<lambda>(t, e). \<lparr>time = t, ECG = e\<rparr>) vs\<rparr>"

definition labelled :: "rat list \<Rightarrow> erow frame" where
  "labelled es = \<lparr>columns = [''time'', ''ECG'', ''timestamp'', ''activiteit''],
      rows = map (\<lambda>e. \<lparr>sample = \<lparr>time = 0, ECG = e\<rparr>, timestamp = 0, activiteit = None\<rparr>) es\<rparr>"

text \<open>An example table of peaks at given elapsed times.\<close>

definition peaks_at :: "rat list \<Rightarrow> (nat \<times> erow) list" where
  "peaks_at ts = map (\<lambda>i. (i, \<lparr>sample = \<lparr>time = 0, ECG = 1\<rparr>, timestamp = ts ! i,
                                 activiteit = None\<rparr>)) [0..<length ts]"

text \<open>Two example files, each one second of signal per row.\<close>

definition example_file :: "sample frame" where
  "example_file = frame_of [(0, 0), (1024, 5), (2048, 0), (3072, 7), (4096, 0)]"

definition other_file :: "sample frame" where
  "other_file = frame_of [(0, 0), (1024, 9), (2048, 0)]"

section \<open>The look-ahead loop and the scan\<close>

lemma ahead_ge: "j \<le> ahead x i_max v j"
proof (induction x i_max v j rule: ahead.induct)
  case (1 x i_max v j)
  show ?case
  proof (cases "j < i_max \<and> x ! j = v")
    case True
    with "1" have "Suc j \<le> ahead x i_max v (Suc j)" by simp
    with True show ?thesis by (subst ahead.simps) auto
  next
    case False
    then show ?thesis by (subst ahead.simps) auto
  qed
qed

lemma ahead_le: "j \<le> m \<Longrightarrow> ahead x m v j \<le> m"
proof (induction x m v j rule: ahead.induct)
  case (1 x m v j)
  show ?case
  proof (cases "j < m \<and> x ! j = v")
    case True
    with "1" have "ahead x m v (Suc j) \<le> m" by simp
    with True show ?thesis by (subst ahead.simps) auto
  next
    case False
    with "1.prems" show ?thesis by (subst ahead.simps) auto
  qed
qed

lemma ahead_eq: "j \<le> k \<Longrightarrow> k < ahead x m v j \<Longrightarrow> x ! k = v"
proof (induction x m v j rule: ahead.induct)
  case (1 x m v j)
  show ?case
  proof (cases "j < m \<and> x ! j = v")
    case True
    then have unf: "ahead x m v j = ahead x m v (Suc j)" by (subst ahead.simps) simp
    show ?thesis
    proof (cases "k = j")
      case True
      with \<open>j < m \<and> x ! j = v\<close> show ?thesis by simp
    next
      case False
      with "1.prems" have "Suc j \<le> k" by simp
      moreover from "1.prems" unf have "k < ahead x m v (Suc j)" by simp
      ultimately show ?thesis using "1.IH" True by blast
    qed
  next
    case False
    then have "ahead x m v j = j" by (subst ahead.simps) auto
    with "1.prems" show ?thesis by simp
  qed
qed

lemma ahead_stop: "ahead x m v j < m \<Longrightarrow> x ! (ahead x m v j) \<noteq> v"
proof (induction x m v j rule: ahead.induct)
  case (1 x m v j)
  show ?case
  proof (cases "j < m \<and> x ! j = v")
    case True
    then have unf: "ahead x m v j = ahead x m v (Suc j)" by (subst ahead.simps) simp
    with "1" True show ?thesis by simp
  next
    case False
    then have "ahead x m v j = j" by (subst ahead.simps) auto
    with "1.prems" False show ?thesis by auto
  qed
qed

lemma plateau_at_start:
  assumes im: "i < length x - 1"
  shows "plateau_peak x i r \<longleftrightarrow>
           0 < i \<and> x ! (i - 1) < x ! i \<and> r = ahead x (length x - 1) (x ! i) (i + 1) - 1 \<and>
           x ! (ahead x (length x - 1) (x ! i) (i + 1)) < x ! i"
proof -
  define m where "m = length x - 1"
  define a where "a = ahead x m (x ! i) (i + 1)"
  have a_ge: "i + 1 \<le> a" unfolding a_def by (rule ahead_ge)
  have a_le: "a \<le> m" unfolding a_def using im m_def by (intro ahead_le) simp
  have eq: "x ! i = x ! k" if "i \<le> k" "k < a" for k
  proof (cases "k = i")
    case True then show ?thesis by simp
  next
    case False
    with that have "i + 1 \<le> k" by simp
    with that show ?thesis unfolding a_def by (intro ahead_eq[of "i + 1" k x m, symmetric])
  qed
  have stop: "x ! a \<noteq> x ! i" if "a < m"
    using that ahead_stop[of x m "x ! i" "i + 1"] unfolding a_def by simp
  have "plateau_peak x i r \<longleftrightarrow> 0 < i \<and> x ! (i - 1) < x ! i \<and> r = a - 1 \<and> x ! a < x ! i"
  proof
    assume pp: "plateau_peak x i r"
    then have ir: "i \<le> r" and rm: "r < m" and all: "\<And>k. i \<le> k \<Longrightarrow> k \<le> r \<Longrightarrow> x ! i = x ! k"
      and lt: "x ! (r + 1) < x ! i" and pos: "0 < i" and rise: "x ! (i - 1) < x ! i"
      unfolding plateau_peak_def m_def by auto
    have "r + 1 \<le> a"
    proof (rule ccontr)
      assume "\<not> r + 1 \<le> a"
      then have "a \<le> r" by simp
      with rm have "a < m" by simp
      from stop[OF this] all[of a] a_ge \<open>a \<le> r\<close> show False by simp
    qed
    moreover have "a \<le> r + 1"
    proof (rule ccontr)
      assume "\<not> a \<le> r + 1"
      then have "r + 1 < a" by simp
      with eq[of "r + 1"] ir lt show False by simp
    qed
    ultimately have "a = r + 1" by simp
    with lt pos rise show "0 < i \<and> x ! (i - 1) < x ! i \<and> r = a - 1 \<and> x ! a < x ! i" by simp
  next
    assume h: "0 < i \<and> x ! (i - 1) < x ! i \<and> r = a - 1 \<and> x ! a < x ! i"
    then have r: "r + 1 = a" using a_ge by simp
    have "r + 1 < length x" using r a_le im unfolding m_def by simp
    moreover have "\<forall>k\<in>{i..r}. x ! i = x ! k"
    proof
      fix k assume "k \<in> {i..r}"
      with r show "x ! i = x ! k" by (intro eq) simp_all
    qed
    moreover have "i \<le> r" using r a_ge by simp
    ultimately show "plateau_peak x i r" using h r unfolding plateau_peak_def by simp
  qed
  then show ?thesis unfolding a_def m_def .
qed



lemma no_plateau_inside:
  assumes im: "i < length x - 1" and il: "i < l"
    and la: "l \<le> ahead x (length x - 1) (x ! i) (i + 1)"
    and lt: "x ! (ahead x (length x - 1) (x ! i) (i + 1)) < x ! i"
  shows "\<not> plateau_peak x l r"
proof -
  define a where "a = ahead x (length x - 1) (x ! i) (i + 1)"
  have la': "l \<le> a" using la unfolding a_def .
  have lt': "x ! a < x ! i" using lt unfolding a_def .
  have eq: "x ! i = x ! k" if "i \<le> k" "k < a" for k
  proof (cases "k = i")
    case True then show ?thesis by simp
  next
    case False
    with that have "i + 1 \<le> k" by simp
    with that show ?thesis unfolding a_def by (intro ahead_eq[of "i + 1" k x, symmetric])
  qed
  have "i \<le> l - 1" "l - 1 < a" using il la' by simp_all
  then have prev: "x ! i = x ! (l - 1)" by (rule eq)
  have "\<not> x ! (l - 1) < x ! l"
  proof (cases "l = a")
    case True
    with lt' have "x ! l < x ! i" by blast
    with prev show ?thesis by linarith
  next
    case False
    with la' have "l < a" by simp
    with il have "x ! i = x ! l" by (intro eq) simp_all
    with prev show ?thesis by linarith
  qed
  then show ?thesis unfolding plateau_peak_def by blast
qed

lemma peaks_from_step:
  "peaks_from x i = {p. \<exists>r. plateau_peak x i r \<and> p = (i + r) div 2} \<union> peaks_from x (i + 1)"
proof (intro set_eqI iffI)
  fix p assume "p \<in> peaks_from x i"
  then obtain l r where lr: "plateau_peak x l r" "i \<le> l" "p = (l + r) div 2"
    unfolding peaks_from_def by blast
  show "p \<in> {p. \<exists>r. plateau_peak x i r \<and> p = (i + r) div 2} \<union> peaks_from x (i + 1)"
  proof (cases "l = i")
    case True
    with lr show ?thesis by blast
  next
    case False
    with lr have "i + 1 \<le> l" by simp
    with lr have "p \<in> peaks_from x (i + 1)" unfolding peaks_from_def by blast
    then show ?thesis by blast
  qed
next
  fix p assume "p \<in> {p. \<exists>r. plateau_peak x i r \<and> p = (i + r) div 2} \<union> peaks_from x (i + 1)"
  then consider r where "plateau_peak x i r" "p = (i + r) div 2"
    | l r where "plateau_peak x l r" "i + 1 \<le> l" "p = (l + r) div 2"
    unfolding peaks_from_def by blast
  then show "p \<in> peaks_from x i"
  proof cases
    case 1
    then show ?thesis unfolding peaks_from_def by blast
  next
    case 2
    then have "i \<le> l" by simp
    with 2 show ?thesis unfolding peaks_from_def by blast
  qed
qed

lemma peaks_from_beyond: "length x - 1 \<le> i \<Longrightarrow> peaks_from x i = {}"
  unfolding peaks_from_def plateau_peak_def by auto

lemma peaks_from_skip:
  assumes im: "i < length x - 1"
    and lt: "x ! (ahead x (length x - 1) (x ! i) (i + 1)) < x ! i"
  shows "peaks_from x (i + 1) = peaks_from x (ahead x (length x - 1) (x ! i) (i + 1) + 1)"
proof -
  define a where "a = ahead x (length x - 1) (x ! i) (i + 1)"
  have a_ge: "i + 1 \<le> a" unfolding a_def by (rule ahead_ge)
  have np: "\<not> plateau_peak x l r" if "i < l" "l \<le> a" for l r
    using no_plateau_inside[OF im that(1) _ lt] that(2) unfolding a_def by simp
  have "i + 1 \<le> l \<longleftrightarrow> a + 1 \<le> l" if "plateau_peak x l r" for l r
  proof (cases "l \<le> a")
    case True
    with np[of l r] that have "\<not> i < l" by blast
    with True a_ge show ?thesis by simp
  next
    case False
    with a_ge show ?thesis by simp
  qed
  then have "peaks_from x (i + 1) = peaks_from x (a + 1)"
    unfolding peaks_from_def by (intro Collect_cong) blast
  then show ?thesis unfolding a_def .
qed

lemma peaks_from_no_start:
  assumes "\<And>r. \<not> plateau_peak x i r"
  shows "peaks_from x i = peaks_from x (i + 1)"
proof -
  have "i \<le> l \<longleftrightarrow> i + 1 \<le> l" if "plateau_peak x l r" for l r
    using that assms by (cases "l = i") auto
  then show ?thesis unfolding peaks_from_def by (intro Collect_cong) blast
qed

lemma peaks_from_one_start:
  assumes "\<And>r. plateau_peak x i r \<longleftrightarrow> r = c"
  shows "peaks_from x i = insert ((i + c) div 2) (peaks_from x (i + 1))"
proof -
  have "{p. \<exists>r. plateau_peak x i r \<and> p = (i + r) div 2} = {(i + c) div 2}"
    using assms by simp
  with peaks_from_step[of x i] show ?thesis by simp
qed


lemma maxima_from_set:
  "set (maxima_from x (length x - 1) i) = peaks_from x i"
proof (induction x "length x - 1" i rule: maxima_from.induct)
  case (1 x i)
  define m where "m = length x - 1"
  define a where "a = ahead x m (x ! i) (i + 1)"
  show ?case
  proof (cases "i < m")
    case False
    then have "maxima_from x m i = []" by (subst maxima_from.simps) simp
    moreover from False have "peaks_from x i = {}"
      unfolding m_def by (intro peaks_from_beyond) simp
    ultimately show ?thesis unfolding m_def by simp
  next
    case im: True
    show ?thesis
    proof (cases "x ! (i - 1) < x ! i")
      case False
      with im have unf: "maxima_from x m i = maxima_from x m (i + 1)"
        by (subst maxima_from.simps) simp
      have ih: "set (maxima_from x m (i + 1)) = peaks_from x (i + 1)"
        unfolding m_def by (rule "1.hyps"(3)) (use im False in \<open>simp_all add: m_def\<close>)
      have "\<not> plateau_peak x i r" for r
        using False unfolding plateau_peak_def by blast
      then have "peaks_from x i = peaks_from x (i + 1)"
        by (rule peaks_from_no_start)
      with unf ih show ?thesis unfolding m_def by simp
    next
      case rise: True
      have pos: "0 < i" using rise by (cases i) simp_all
      show ?thesis
      proof (cases "x ! a < x ! i")
        case True
        with im rise have unf: "maxima_from x m i = ((i + (a - 1)) div 2) # maxima_from x m (a + 1)"
          unfolding a_def by (subst maxima_from.simps) (simp add: Let_def)
        have ih: "set (maxima_from x m (a + 1)) = peaks_from x (a + 1)"
          unfolding m_def
          by (rule "1.hyps"(1)[of a]) (use im rise True in \<open>simp_all add: m_def a_def\<close>)
        have skip: "peaks_from x (i + 1) = peaks_from x (a + 1)"
          unfolding a_def m_def
          by (rule peaks_from_skip) (use im True in \<open>simp_all add: m_def a_def\<close>)
        have "plateau_peak x i r \<longleftrightarrow> r = a - 1" for r
          unfolding a_def m_def
          by (subst plateau_at_start) (use im rise True pos in \<open>simp_all add: m_def a_def\<close>)
        then have "peaks_from x i = insert ((i + (a - 1)) div 2) (peaks_from x (i + 1))"
          by (rule peaks_from_one_start)
        with unf ih skip show ?thesis unfolding m_def by simp
      next
        case False
        with im rise have unf: "maxima_from x m i = maxima_from x m (i + 1)"
          unfolding a_def by (subst maxima_from.simps) (simp add: Let_def)
        have ih: "set (maxima_from x m (i + 1)) = peaks_from x (i + 1)"
          unfolding m_def
          by (rule "1.hyps"(2)[of a]) (use im rise False in \<open>simp_all add: m_def a_def\<close>)
        have "\<not> plateau_peak x i r" for r
          unfolding a_def m_def
          by (subst plateau_at_start) (use im False in \<open>simp_all add: m_def a_def\<close>)
        then have "peaks_from x i = peaks_from x (i + 1)"
          by (rule peaks_from_no_start)
        with unf ih show ?thesis unfolding m_def by simp
      qed
    qed
  qed
qed


lemma peaks_from_bounds:
  assumes "p \<in> peaks_from x i"
  shows "i \<le> p" and "0 < p" and "p + 1 < length x"
proof -
  from assms obtain l r where lr: "plateau_peak x l r" "i \<le> l" "p = (l + r) div 2"
    unfolding peaks_from_def by blast
  from lr(1) have "0 < l" "l \<le> r" "r + 1 < length x"
    unfolding plateau_peak_def by blast+
  with lr(2,3) show "i \<le> p" and "0 < p" and "p + 1 < length x" by simp_all
qed

lemma maxima_from_sorted:
  "sorted_wrt (<) (maxima_from x (length x - 1) i)"
proof (induction x "length x - 1" i rule: maxima_from.induct)
  case (1 x i)
  define m where "m = length x - 1"
  define a where "a = ahead x m (x ! i) (i + 1)"
  show ?case
  proof (cases "i < m")
    case False
    then have "maxima_from x m i = []" by (subst maxima_from.simps) simp
    then show ?thesis unfolding m_def by simp
  next
    case im: True
    show ?thesis
    proof (cases "x ! (i - 1) < x ! i")
      case False
      with im have unf: "maxima_from x m i = maxima_from x m (i + 1)"
        by (subst maxima_from.simps) simp
      have "sorted_wrt (<) (maxima_from x m (i + 1))"
        unfolding m_def by (rule "1.hyps"(3)) (use im False in \<open>simp_all add: m_def\<close>)
      with unf show ?thesis unfolding m_def by simp
    next
      case rise: True
      show ?thesis
      proof (cases "x ! a < x ! i")
        case True
        with im rise have unf: "maxima_from x m i = ((i + (a - 1)) div 2) # maxima_from x m (a + 1)"
          unfolding a_def by (subst maxima_from.simps) (simp add: Let_def)
        have ih: "sorted_wrt (<) (maxima_from x m (a + 1))"
          unfolding m_def
          by (rule "1.hyps"(1)[of a]) (use im rise True in \<open>simp_all add: m_def a_def\<close>)
        have a_ge: "i + 1 \<le> a" unfolding a_def by (rule ahead_ge)
        have "(i + (a - 1)) div 2 < p" if "p \<in> set (maxima_from x m (a + 1))" for p
        proof -
          from that have "p \<in> peaks_from x (a + 1)"
            unfolding m_def by (simp only: maxima_from_set)
          then have "a + 1 \<le> p" by (rule peaks_from_bounds)
          with a_ge show ?thesis by simp
        qed
        with unf ih show ?thesis unfolding m_def by simp
      next
        case False
        with im rise have unf: "maxima_from x m i = maxima_from x m (i + 1)"
          unfolding a_def by (subst maxima_from.simps) (simp add: Let_def)
        have "sorted_wrt (<) (maxima_from x m (i + 1))"
          unfolding m_def
          by (rule "1.hyps"(2)[of a]) (use im rise False in \<open>simp_all add: m_def a_def\<close>)
        with unf show ?thesis unfolding m_def by simp
      qed
    qed
  qed
qed

lemma set_local_maxima_1d:
  "set (local_maxima_1d x) = {p. \<exists>l r. plateau_peak x l r \<and> p = (l + r) div 2}"
proof -
  have "1 \<le> l" if "plateau_peak x l r" for l r
    using that unfolding plateau_peak_def by simp
  then have "peaks_from x 1 = {p. \<exists>l r. plateau_peak x l r \<and> p = (l + r) div 2}"
    unfolding peaks_from_def by (intro Collect_cong) blast
  then show ?thesis unfolding local_maxima_1d_def by (simp only: maxima_from_set)
qed

lemma set_find_peaks:
  "set (find_peaks x h) =
     {p. \<exists>l r. plateau_peak x l r \<and> p = (l + r) div 2 \<and> h \<le> x ! p}"
  unfolding find_peaks_def set_filter set_local_maxima_1d by blast

lemma sorted_find_peaks: "sorted_wrt (<) (find_peaks x h)"
  unfolding find_peaks_def local_maxima_1d_def
  by (intro sorted_wrt_filter maxima_from_sorted)

lemma find_peaks_inside:
  assumes "p \<in> set (find_peaks x h)"
  shows "0 < p" and "p + 1 < length x" and "h \<le> x ! p"
proof -
  from assms have "p \<in> set (local_maxima_1d x)" and h: "h \<le> x ! p"
    unfolding find_peaks_def by simp_all
  then have "p \<in> peaks_from x 1"
    unfolding local_maxima_1d_def by (simp only: maxima_from_set)
  then show "0 < p" and "p + 1 < length x" by (rule peaks_from_bounds)+
  from h show "h \<le> x ! p" .
qed


section \<open>The detector on a table\<close>

lemma pymax_Max: "xs \<noteq> [] \<Longrightarrow> pymax xs = Inr (Max (set xs))"
proof (cases xs)
  case Nil
  then show "xs \<noteq> [] \<Longrightarrow> ?thesis" by simp
next
  case (Cons a as)
  have "foldl max a as = fold max as a"
    by (simp add: foldl_conv_fold max.commute)
  also have "\<dots> = Max (set (a # as))" by (simp only: Max.set_eq_fold)
  finally show ?thesis using Cons by simp
qed

lemma iloc_find_peaks:
  assumes "length x = length rs"
  shows "iloc rs (find_peaks x h) = Inr (map (\<lambda>p. (p, rs ! p)) (find_peaks x h))"
proof -
  have "p < length rs" if "p \<in> set (find_peaks x h)" for p
    using find_peaks_inside(2)[OF that] assms by simp
  then have "list_all (\<lambda>p. p < length rs) (find_peaks x h)"
    by (simp add: list_all_iff)
  then show ?thesis unfolding iloc_def by simp
qed

lemma detecteer_Rpieken_ok:
  assumes "''ECG'' \<in> set (columns df)" and "rows df \<noteq> []"
  shows "detecteer_Rpieken df pct =
           Inr (map (\<lambda>p. (p, rows df ! p))
                  (find_peaks (ecg_column df) (pct * Max (set (ecg_column df)))))"
proof -
  have g: "getitem df ''ECG'' (\<lambda>r. ECG (sample r)) = Inr (ecg_column df)"
    using assms(1) unfolding getitem_def ecg_column_def by simp
  have ne: "ecg_column df \<noteq> []" using assms(2) unfolding ecg_column_def by simp
  have len: "length (ecg_column df) = length (rows df)" unfolding ecg_column_def by simp
  show ?thesis
    by (simp add: detecteer_Rpieken_def g pymax_Max[OF ne] Let_def iloc_find_peaks[OF len])
qed

lemma detecteer_Rpieken_Inr:
  assumes "detecteer_Rpieken df pct = Inr pk"
  shows "''ECG'' \<in> set (columns df)" and "rows df \<noteq> []"
proof -
  show c: "''ECG'' \<in> set (columns df)"
  proof (rule ccontr)
    assume "\<not> ?thesis"
    then have "detecteer_Rpieken df pct = Inl (KeyError ''ECG'')"
      unfolding detecteer_Rpieken_def getitem_def by simp
    with assms show False by simp
  qed
  show "rows df \<noteq> []"
  proof
    assume "rows df = []"
    with c have "detecteer_Rpieken df pct = Inl ValueError"
      unfolding detecteer_Rpieken_def getitem_def by simp
    with assms show False by simp
  qed
qed


section \<open>Binning\<close>

lemma searchsorted_left_card:
  "searchsorted_left bins t = card {j. j < length bins \<and> of_int (bins ! j) < t}"
  unfolding searchsorted_left_def by (simp add: length_filter_conv_card)

lemma searchsorted_left_interval:
  assumes srt: "sorted_wrt (<) bins" and i: "i < length bins"
    and lo: "of_int (bins ! i) < t"
    and hi: "Suc i < length bins \<Longrightarrow> t \<le> of_int (bins ! Suc i)"
  shows "searchsorted_left bins t = Suc i"
proof -
  have "of_int (bins ! j) < t \<longleftrightarrow> j \<le> i" if j: "j < length bins" for j
  proof
    assume b: "of_int (bins ! j) < t"
    show "j \<le> i"
    proof (rule ccontr)
      assume "\<not> j \<le> i"
      then have si: "Suc i \<le> j" by simp
      with j have sil: "Suc i < length bins" by simp
      have "bins ! Suc i \<le> bins ! j"
      proof (cases "Suc i = j")
        case True then show ?thesis by simp
      next
        case False
        with si have "Suc i < j" by simp
        from sorted_wrt_nth_less[OF srt this j] show ?thesis by simp
      qed
      then have "(of_int (bins ! Suc i) :: rat) \<le> of_int (bins ! j)" by simp
      with hi[OF sil] b show False by linarith
    qed
  next
    assume ji: "j \<le> i"
    have "bins ! j \<le> bins ! i"
    proof (cases "j = i")
      case True then show ?thesis by simp
    next
      case False
      with ji have "j < i" by simp
      from sorted_wrt_nth_less[OF srt this i] show ?thesis by simp
    qed
    then have "(of_int (bins ! j) :: rat) \<le> of_int (bins ! i)" by simp
    with lo show "of_int (bins ! j) < t" by linarith
  qed
  then have "{j. j < length bins \<and> of_int (bins ! j) < t} = {j. j < Suc i}"
    using i by auto
  then show ?thesis unfolding searchsorted_left_card by simp
qed

lemma searchsorted_left_below:
  assumes srt: "sorted_wrt (<) bins" and ne: "bins \<noteq> []" and lo: "t \<le> of_int (bins ! 0)"
  shows "searchsorted_left bins t = 0"
proof -
  have "\<not> of_int (bins ! j) < t" if j: "j < length bins" for j
  proof -
    have "bins ! 0 \<le> bins ! j"
    proof (cases "j = 0")
      case True then show ?thesis by simp
    next
      case False
      then have "0 < j" by simp
      from sorted_wrt_nth_less[OF srt this j] show ?thesis by simp
    qed
    then have "(of_int (bins ! 0) :: rat) \<le> of_int (bins ! j)" by simp
    with lo show ?thesis by linarith
  qed
  then have "{j. j < length bins \<and> of_int (bins ! j) < t} = {}" by blast
  then show ?thesis unfolding searchsorted_left_card by simp
qed

lemma cut_ok:
  assumes "sorted_wrt (<) bins" and "length labels + 1 = length bins"
  shows "cut x bins labels = Inr (map (cut1 bins labels) x)"
  using assms unfolding cut_def by simp

lemma cut1_interval:
  assumes srt: "sorted_wrt (<) bins" and len: "length labels + 1 = length bins"
    and i: "i < length labels"
    and lo: "of_int (bins ! i) < t" and hi: "t \<le> of_int (bins ! Suc i)"
  shows "cut1 bins labels t = Some (labels ! i)"
proof -
  from i len have "i < length bins" by simp
  from searchsorted_left_interval[OF srt this lo hi]
  have "searchsorted_left bins t = Suc i" .
  with i len show ?thesis unfolding cut1_def by (simp add: Let_def)
qed

lemma cut1_outside:
  assumes srt: "sorted_wrt (<) bins" and ne: "bins \<noteq> []"
    and out: "t \<le> of_int (bins ! 0) \<or> of_int (last bins) < t"
  shows "cut1 bins labels t = None"
proof -
  from out show ?thesis
  proof
    assume "t \<le> of_int (bins ! 0)"
    from searchsorted_left_below[OF srt ne this] show ?thesis
      unfolding cut1_def by (simp add: Let_def)
  next
    assume gt: "of_int (last bins) < t"
    from ne have l: "length bins - 1 < length bins" by simp
    have "of_int (bins ! (length bins - 1)) < t" using gt ne by (simp add: last_conv_nth)
    from searchsorted_left_interval[OF srt l this] ne
    have "searchsorted_left bins t = length bins" by simp
    then show ?thesis unfolding cut1_def by (simp add: Let_def)
  qed
qed

lemma interval_exists:
  assumes ne: "bins \<noteq> []" and lo: "of_int (bins ! 0) < (t::rat)" and hi: "t \<le> of_int (last bins)"
  shows "\<exists>i. Suc i < length bins \<and> of_int (bins ! i) < t \<and> t \<le> of_int (bins ! Suc i)"
proof -
  define Q where "Q j \<longleftrightarrow> j < length bins \<and> t \<le> of_int (bins ! j)" for j
  have "Q (length bins - 1)" using ne hi unfolding Q_def by (simp add: last_conv_nth)
  then have ex: "\<exists>j. Q j" ..
  define j0 where "j0 = (LEAST j. Q j)"
  have q: "Q j0" unfolding j0_def using ex by (rule LeastI_ex)
  have min: "\<not> Q j" if "j < j0" for j using that not_less_Least unfolding j0_def by blast
  have "j0 \<noteq> 0"
  proof
    assume "j0 = 0"
    with q lo show False unfolding Q_def by simp
  qed
  then obtain i where i: "j0 = Suc i" by (cases j0) simp_all
  have "\<not> Q i" using min[of i] i by simp
  moreover have "i < length bins" using q i unfolding Q_def by simp
  ultimately have "of_int (bins ! i) < t" unfolding Q_def by simp
  with q i show ?thesis unfolding Q_def by blast
qed

section \<open>Beat intervals\<close>

lemma filter_pos_upt: "filter (\<lambda>i. i \<noteq> 0) [0..<n] = [1..<n]"
proof (cases n)
  case 0
  then show ?thesis by simp
next
  case (Suc m)
  have "[0..<Suc m] = 0 # [1..<Suc m]" by (simp add: upt_rec)
  moreover have "filter (\<lambda>i. i \<noteq> 0) [1..<Suc m] = [1..<Suc m]"
    by (rule filter_True) (simp del: upt_Suc)
  ultimately show ?thesis using Suc by simp
qed

lemma beat_intervals_eq:
  "beat_intervals pk =
     map (\<lambda>i. \<lparr>index = fst (pk ! i), row = snd (pk ! i),
                rr = Fin (peak_times pk ! i - peak_times pk ! (i - 1)),
                bpm = rdiv 60 (Fin (peak_times pk ! i - peak_times pk ! (i - 1))),
                gemiddelde_tijd = Fin ((peak_times pk ! (i - 1) + peak_times pk ! i) / 2)\<rparr>)
       [1..<length pk]"
proof -
  define ts where "ts = peak_times pk"
  define n where "n = length pk"
  have lts: "length ts = n" unfolding ts_def n_def peak_times_def by simp
  define f where "f = (\<lambda>i. \<lparr>index = fst (pk ! i), row = snd (pk ! i), rr = diff ts ! i,
      bpm = map (rdiv 60) (diff ts) ! i, gemiddelde_tijd = rolling2_mean ts ! i\<rparr>)"
  have bi: "beat_intervals pk = filter (\<lambda>b. notna (rr b)) (map f [0..<n])"
    unfolding beat_intervals_def f_def ts_def n_def peak_times_def by (simp add: Let_def)
  have d: "diff ts ! i = (if i = 0 then NaN else Fin (ts ! i - ts ! (i - 1)))" if "i < n" for i
    using that lts unfolding diff_def by simp
  have m: "rolling2_mean ts ! i = (if i = 0 then NaN else Fin ((ts ! (i - 1) + ts ! i) / 2))"
    if "i < n" for i
    using that lts unfolding rolling2_mean_def by simp
  have ld: "length (diff ts) = n" using lts unfolding diff_def by simp
  have keep: "notna (rr (f i)) \<longleftrightarrow> i \<noteq> 0" if "i < n" for i
    using d[OF that] unfolding f_def by simp
  have "filter (\<lambda>b. notna (rr b)) (map f [0..<n]) = map f (filter (\<lambda>i. notna (rr (f i))) [0..<n])"
    by (simp add: filter_map comp_def)
  also have "filter (\<lambda>i. notna (rr (f i))) [0..<n] = filter (\<lambda>i. i \<noteq> 0) [0..<n]"
    by (rule filter_cong) (simp_all add: keep)
  also have "\<dots> = [1..<n]" by (rule filter_pos_upt)
  finally have "beat_intervals pk = map f [1..<n]" using bi by simp
  also have "map f [1..<n] =
     map (\<lambda>i. \<lparr>index = fst (pk ! i), row = snd (pk ! i),
                rr = Fin (ts ! i - ts ! (i - 1)),
                bpm = rdiv 60 (Fin (ts ! i - ts ! (i - 1))),
                gemiddelde_tijd = Fin ((ts ! (i - 1) + ts ! i) / 2)\<rparr>) [1..<n]"
  proof (rule map_cong[OF refl])
    fix i assume "i \<in> set [1..<n]"
    then have i: "i < n" "i \<noteq> 0" by simp_all
    with d[of i] m[of i] ld show "f i = \<lparr>index = fst (pk ! i), row = snd (pk ! i),
                rr = Fin (ts ! i - ts ! (i - 1)),
                bpm = rdiv 60 (Fin (ts ! i - ts ! (i - 1))),
                gemiddelde_tijd = Fin ((ts ! (i - 1) + ts ! i) / 2)\<rparr>"
      unfolding f_def by simp
  qed
  finally show ?thesis unfolding ts_def n_def .
qed

lemma length_beat_intervals: "length (beat_intervals pk) = length pk - 1"
  unfolding beat_intervals_eq by simp

lemma beat_intervals_nth:
  assumes "0 < i" and "i < length pk"
  shows "beat_intervals pk ! (i - 1) =
     \<lparr>index = fst (pk ! i), row = snd (pk ! i),
      rr = Fin (peak_times pk ! i - peak_times pk ! (i - 1)),
      bpm = rdiv 60 (Fin (peak_times pk ! i - peak_times pk ! (i - 1))),
      gemiddelde_tijd = Fin ((peak_times pk ! (i - 1) + peak_times pk ! i) / 2)\<rparr>"
proof -
  from assms have "i - 1 < length [1..<length pk]" by simp
  moreover from assms have "[1..<length pk] ! (i - 1) = i" by simp
  ultimately show ?thesis unfolding beat_intervals_eq by (simp del: upt_Suc)
qed

lemma beat_intervals_mem:
  assumes "b \<in> set (beat_intervals pk)"
  obtains i where "0 < i" and "i < length pk" and "b = beat_intervals pk ! (i - 1)"
proof -
  from assms obtain k where k: "k < length (beat_intervals pk)" "b = beat_intervals pk ! k"
    by (auto simp: in_set_conv_nth)
  then have "0 < Suc k" "Suc k < length pk" "b = beat_intervals pk ! (Suc k - 1)"
    by (simp_all add: length_beat_intervals)
  then show thesis by (rule that)
qed

lemma beat_intervals_rows: "map (\<lambda>b. (index b, row b)) (beat_intervals pk) = tl pk"
proof (rule nth_equalityI)
  show "length (map (\<lambda>b. (index b, row b)) (beat_intervals pk)) = length (tl pk)"
    by (simp add: length_beat_intervals)
next
  fix k assume "k < length (map (\<lambda>b. (index b, row b)) (beat_intervals pk))"
  then have k: "Suc k < length pk" by (simp add: length_beat_intervals)
  then have kb: "k < length (beat_intervals pk)" by (simp add: length_beat_intervals)
  from beat_intervals_nth[of "Suc k" pk] k
  have "index (beat_intervals pk ! k) = fst (pk ! Suc k)"
    and "row (beat_intervals pk ! k) = snd (pk ! Suc k)" by simp_all
  moreover from k have "tl pk ! k = pk ! Suc k" by (simp add: nth_tl)
  ultimately show "map (\<lambda>b. (index b, row b)) (beat_intervals pk) ! k = tl pk ! k"
    using kb by simp
qed

section \<open>The stored configuration\<close>

lemma set_config_keeps:
  "df_ecg (set_config s) = df_ecg s"
  "df_ecg_pieken (set_config s) = df_ecg_pieken s"
  "data_initialized (set_config s) = data_initialized s"
  unfolding set_config_def by (simp_all add: Let_def)

lemma set_config_values:
  "intervallen (set_config s) =
     Some [0, 120, 240, 360, 2160, 3360, 4020, 6000, 6480, 6780, 7320]"
  "activiteiten (set_config s) =
     Some [''zitten'', ''lopen'', ''schoenen aandoen'', ''lopen'', ''zitten'', ''lopen'',
           ''zitten'', ''lopen'', ''traplopen'', ''zitten'']"
  "rpieken_drempel (set_config s) = Some (6 / 10)"
  unfolding set_config_def by (simp_all add: Let_def)

section \<open>Runs of the pipeline\<close>

lemma initialize_data_guard:
  "data_initialized s \<noteq> None \<Longrightarrow> initialize_data d u s = (None, [], s)"
  unfolding initialize_data_def by auto

lemma initialize_data_failure:
  "data_initialized s = None \<Longrightarrow> try_body d u (set_config s) = Inl e \<Longrightarrow>
     initialize_data d u s = (Some False, [Error_fout_opgetreden e], set_config s)"
  unfolding initialize_data_def by (simp add: Let_def)

lemma initialize_data_success:
  "data_initialized s = None \<Longrightarrow> try_body d u (set_config s) = Inr (df, pk) \<Longrightarrow>
     initialize_data d u s =
       (Some True, [],
        (set_config s)\<lparr>df_ecg := Some df, df_ecg_pieken := Some pk,
                        data_initialized := Some True\<rparr>)"
  unfolding initialize_data_def by (simp add: Let_def)

lemma initialize_data_cases:
  obtains (guard) "data_initialized s \<noteq> None" "initialize_data d u s = (None, [], s)"
  | (failure) e where "data_initialized s = None" "try_body d u (set_config s) = Inl e"
      "initialize_data d u s = (Some False, [Error_fout_opgetreden e], set_config s)"
  | (success) df pk where "data_initialized s = None"
      "try_body d u (set_config s) = Inr (df, pk)"
      "initialize_data d u s =
         (Some True, [],
          (set_config s)\<lparr>df_ecg := Some df, df_ecg_pieken := Some pk,
                          data_initialized := Some True\<rparr>)"
proof (cases "data_initialized s = None")
  case False
  with initialize_data_guard[of s d u] guard show ?thesis by blast
next
  case n: True
  show ?thesis
  proof (cases "try_body d u (set_config s)")
    case (Inl e)
    with initialize_data_failure[OF n] failure n show ?thesis by blast
  next
    case (Inr r)
    obtain df pk where "r = (df, pk)" by (cases r)
    with Inr initialize_data_success[OF n] success n show ?thesis by blast
  qed
qed

lemma homepage_upload_state:
  "snd (homepage_upload d u s) = snd (snd (initialize_data d u s))"
  unfolding homepage_upload_def by (simp split: prod.splits)

lemma reachable_unset:
  assumes "reachable s" and "data_initialized s = None"
  shows "df_ecg s = None \<and> df_ecg_pieken s = None"
  using assms
proof (induction rule: reachable.induct)
  case fresh
  show ?case unfolding empty_session_def by simp
next
  case (run s d u out s')
  from run.hyps(2) homepage_upload_state[of d u s]
  have s': "s' = snd (snd (initialize_data d u s))" by simp
  show ?case
  proof (cases rule: initialize_data_cases[of s d u])
    case guard
    with s' run show ?thesis by simp
  next
    case (failure e)
    with s' have "s' = set_config s" by simp
    with run.IH failure(1) show ?thesis by (simp add: set_config_keeps)
  next
    case (success df pk)
    with s' run.prems show ?thesis by simp
  qed
qed

lemma cut_Inr:
  "cut x bins labels = Inr acts \<Longrightarrow> acts = map (cut1 bins labels) x"
  unfolding cut_def by (simp split: if_splits)

lemma try_body_Inr:
  assumes ok: "try_body d u s = Inr (df, bs)"
  shows "\<forall>i<length (rows df).
           activiteit (rows df ! i) =
             cut1 (the (intervallen s)) (the (activiteiten s)) (timestamp (rows df ! i))"
    and "\<exists>ps. bs = beat_intervals (map (\<lambda>p. (p, rows df ! p)) ps) \<and>
              (\<forall>p\<in>set ps. p < length (rows df))"
proof -
  obtain df0 where src: "(case u of Some f \<Rightarrow> f | None \<Rightarrow> d) = Inr df0"
    using ok unfolding try_body_def by (cases "case u of Some f \<Rightarrow> f | None \<Rightarrow> d") simp_all
  obtain tcol where tcol: "getitem df0 ''time'' time = Inr tcol"
    using ok src unfolding try_body_def by (cases "getitem df0 ''time'' time") simp_all
  then have tc: "tcol = map time (rows df0)"
    unfolding getitem_def by (simp split: if_splits)
  obtain t0 where t0: "iloc0 tcol = Inr t0"
    using ok src tcol unfolding try_body_def by (cases "iloc0 tcol") simp_all
  define ts where "ts = map (\<lambda>t. (of_int (t - t0) :: rat) / 1024) tcol"
  obtain acts where acts: "cut ts (the (intervallen s)) (the (activiteiten s)) = Inr acts"
    using ok src tcol t0 unfolding try_body_def ts_def
    by (cases "cut (map (\<lambda>t. (of_int (t - t0) :: rat) / 1024) tcol) (the (intervallen s))
                 (the (activiteiten s))") (simp_all add: Let_def)
  from cut_Inr[OF acts] have ac: "acts = map (cut1 (the (intervallen s)) (the (activiteiten s))) ts" .
  define df1 where "df1 = \<lparr>columns = List.insert ''activiteit''
                                (List.insert ''timestamp'' (columns df0)),
                     rows = map (\<lambda>i. \<lparr>sample = rows df0 ! i, timestamp = ts ! i,
                                        activiteit = acts ! i\<rparr>) [0..<length (rows df0)]\<rparr>"
  obtain pieken where pk: "detecteer_Rpieken df1 (the (rpieken_drempel s)) = Inr pieken"
    using ok src tcol t0 acts unfolding try_body_def ts_def df1_def
    by (cases "detecteer_Rpieken \<lparr>columns = List.insert ''activiteit''
                                (List.insert ''timestamp'' (columns df0)),
                     rows = map (\<lambda>i. \<lparr>sample = rows df0 ! i,
                          timestamp = map (\<lambda>t. (of_int (t - t0) :: rat) / 1024) tcol ! i,
                          activiteit = acts ! i\<rparr>) [0..<length (rows df0)]\<rparr>
                 (the (rpieken_drempel s))") (simp_all add: Let_def)
  have res: "df = df1" "bs = beat_intervals pieken"
    using ok src tcol t0 acts pk unfolding try_body_def ts_def df1_def
    by (simp_all add: Let_def)
  have len: "length ts = length (rows df0)" unfolding ts_def tc by simp
  show "\<forall>i<length (rows df).
           activiteit (rows df ! i) =
             cut1 (the (intervallen s)) (the (activiteiten s)) (timestamp (rows df ! i))"
    unfolding res df1_def ac using len by simp
  from detecteer_Rpieken_Inr[OF pk] detecteer_Rpieken_ok[of df1 "the (rpieken_drempel s)"] pk
  have pe: "pieken = map (\<lambda>p. (p, rows df1 ! p))
      (find_peaks (ecg_column df1) (the (rpieken_drempel s) * Max (set (ecg_column df1))))"
    by simp
  have "p < length (rows df1)"
    if "p \<in> set (find_peaks (ecg_column df1) (the (rpieken_drempel s) * Max (set (ecg_column df1))))"
    for p
    using find_peaks_inside(2)[OF that] unfolding ecg_column_def by simp
  with pe res show "\<exists>ps. bs = beat_intervals (map (\<lambda>p. (p, rows df ! p)) ps) \<and>
              (\<forall>p\<in>set ps. p < length (rows df))"
    by blast
qed

section \<open>Claims\<close>

text \<open>
  C10. The positions returned by the peak detector never contain the first or the last
  position of the series, for every series and every threshold: this holds for the list
  \<open>find_peaks\<close> returns and for the index of every row \<^verbatim>\<open>detecteer_Rpieken\<close> returns.
  In the example the maximum 9 is at the first position and exceeds the threshold, and
  the only position returned is 2.
\<close>

theorem peaks_never_first_or_last:
  "(\<forall>p\<in>set (find_peaks x h). 0 < p \<and> p < length x - 1) \<and>
   (detecteer_Rpieken df pct = Inr pk \<longrightarrow>
      (\<forall>(i, r)\<in>set pk. 0 < i \<and> i < length (rows df) - 1))"
proof -
  have A: "0 < p \<and> p < length x - 1" if "p \<in> set (find_peaks x h)" for p
    using find_peaks_inside(1,2)[OF that] by simp
  have B: "case ir of (i, r) \<Rightarrow> 0 < i \<and> i < length (rows df) - 1"
    if ok: "detecteer_Rpieken df pct = Inr pk" and mem: "ir \<in> set pk" for ir
  proof -
    from detecteer_Rpieken_Inr[OF ok] detecteer_Rpieken_ok[of df pct] ok
    have "pk = map (\<lambda>p. (p, rows df ! p))
                 (find_peaks (ecg_column df) (pct * Max (set (ecg_column df))))" by simp
    with mem obtain p where p: "p \<in> set (find_peaks (ecg_column df) (pct * Max (set (ecg_column df))))"
      and ir: "ir = (p, rows df ! p)" by auto
    from find_peaks_inside(1,2)[OF p] have "0 < p \<and> p < length (rows df) - 1"
      unfolding ecg_column_def by simp
    with ir show ?thesis by simp
  qed
  from A B show ?thesis by blast
qed

theorem peaks_never_first_or_last_witness:
  "find_peaks [9, 1, 2, 1, 0] (9 / 10) = [2] \<and>
   detecteer_Rpieken (labelled [9, 1, 2, 1, 0]) (1 / 10) =
     Inr [(2, \<lparr>sample = \<lparr>time = 0, ECG = 2\<rparr>, timestamp = 0, activiteit = None\<rparr>)] \<and>
   (0::nat) < 2 \<and> (2::nat) < length [9, 1, 2, 1, 0::rat] - 1 \<and>
   (2::nat) < length (rows (labelled [9, 1, 2, 1, 0])) - 1"
proof -
  have e: "find_peaks [9, 1, 2, 1, 0] (9 / 10) = [2]" by code_simp
  have d: "detecteer_Rpieken (labelled [9, 1, 2, 1, 0]) (1 / 10) =
     Inr [(2, \<lparr>sample = \<lparr>time = 0, ECG = 2\<rparr>, timestamp = 0, activiteit = None\<rparr>)]"
    by code_simp
  from peaks_never_first_or_last[of "[9, 1, 2, 1, 0]" "9 / 10" "labelled [9, 1, 2, 1, 0]" "1 / 10"
      "[(2, \<lparr>sample = \<lparr>time = 0, ECG = 2\<rparr>, timestamp = 0, activiteit = None\<rparr>)]"] e d
  show ?thesis by simp
qed

text \<open>
  C1, as the code has it. The binning call uses the library's default, intervals closed on
  the right: for boundaries \<open>[0, 10, 20]\<close> and labels \<open>sitting, walking\<close> the sample at
  elapsed 10 is labelled \<open>sitting\<close>, not \<open>walking\<close>.
\<close>

theorem cut_boundary_counterexample:
  "cut [10, 0] [0, 10, 20] [''sitting'', ''walking''] = Inr [Some ''sitting'', None] \<and>
   cut [10] [0, 10, 20] [''sitting'', ''walking''] \<noteq> Inr [Some ''walking'']"
  by code_simp

text \<open>
  C1, amended. For strictly increasing boundaries with one label fewer than boundaries,
  every value \<open>t\<close> with \<open>boundaries[0] < t \<le> boundaries[last]\<close> gets exactly one label,
  that of the unique interval \<open>i\<close> with \<open>boundaries[i] < t \<le> boundaries[i+1]\<close>: a sample
  exactly at an inner boundary \<open>b[i]\<close> belongs to the interval that ends there.
\<close>

theorem cut_right_closed_interval:
  assumes srt: "sorted_wrt (<) bins" and len: "length labels + 1 = length bins"
    and k: "k < length x"
    and lo: "of_int (bins ! 0) < x ! k" and hi: "x ! k \<le> of_int (last bins)"
  shows "\<exists>ls i. cut x bins labels = Inr ls \<and> i < length labels \<and>
           of_int (bins ! i) < x ! k \<and> x ! k \<le> of_int (bins ! Suc i) \<and>
           ls ! k = Some (labels ! i) \<and>
           (\<forall>j. j < length labels \<and> of_int (bins ! j) < x ! k \<and>
                 x ! k \<le> of_int (bins ! Suc j) \<longrightarrow> j = i)"
proof -
  from len have ne: "bins \<noteq> []" by auto
  from interval_exists[OF ne lo hi] obtain i where
    i: "Suc i < length bins" "of_int (bins ! i) < x ! k" "x ! k \<le> of_int (bins ! Suc i)"
    by blast
  from i(1) len have il: "i < length labels" by simp
  have c: "cut x bins labels = Inr (map (cut1 bins labels) x)" by (rule cut_ok[OF srt len])
  have l: "cut1 bins labels (x ! k) = Some (labels ! i)"
    by (rule cut1_interval[OF srt len il i(2,3)])
  have u: "j = i" if "j < length labels" "of_int (bins ! j) < x ! k"
    "x ! k \<le> of_int (bins ! Suc j)" for j
  proof -
    from that(1) len have "j < length bins" "Suc j < length bins" by simp_all
    from searchsorted_left_interval[OF srt this(1) that(2)] that(3)
    have "searchsorted_left bins (x ! k) = Suc j" by simp
    moreover from searchsorted_left_interval[OF srt _ i(2)] i(1,3)
    have "searchsorted_left bins (x ! k) = Suc i" by simp
    ultimately show ?thesis by simp
  qed
  have "ls ! k = Some (labels ! i)" if "ls = map (cut1 bins labels) x" for ls
    using that l k by simp
  with c il i(2,3) u show ?thesis by blast
qed

theorem cut_right_closed_interval_witness:
  "sorted_wrt (<) [0, 10, 20 :: int] \<and>
   length [''sitting'', ''walking''] + 1 = length [0, 10, 20 :: int] \<and>
   (0::nat) < length [10, 9999 / 1000, 10001 / 1000 :: rat] \<and>
   of_int ([0, 10, 20] ! 0) < [10, 9999 / 1000, 10001 / 1000 :: rat] ! 0 \<and>
   [10, 9999 / 1000, 10001 / 1000 :: rat] ! 0 \<le> of_int (last [0, 10, 20]) \<and>
   cut [10, 9999 / 1000, 10001 / 1000] [0, 10, 20] [''sitting'', ''walking''] =
     Inr [Some ''sitting'', Some ''sitting'', Some ''walking''] \<and>
   (\<exists>ls i. cut [10, 9999 / 1000, 10001 / 1000] [0, 10, 20] [''sitting'', ''walking''] = Inr ls \<and>
      i < length [''sitting'', ''walking''] \<and> ls ! 0 = Some ([''sitting'', ''walking''] ! i))"
proof -
  have v: "cut [10, 9999 / 1000, 10001 / 1000] [0, 10, 20] [''sitting'', ''walking''] =
     Inr [Some ''sitting'', Some ''sitting'', Some ''walking'']" by code_simp
  have "\<exists>ls i. cut [10, 9999 / 1000, 10001 / 1000] [0, 10, 20] [''sitting'', ''walking''] = Inr ls \<and>
      i < length [''sitting'', ''walking''] \<and> ls ! 0 = Some ([''sitting'', ''walking''] ! i)"
    using cut_right_closed_interval[of "[0, 10, 20]" "[''sitting'', ''walking'']" 0
        "[10, 9999 / 1000, 10001 / 1000]"]
    by simp blast
  with v show ?thesis by simp
qed

text \<open>
  C7, as the code has it. A value exactly at the final boundary is not unlabelled: with
  boundaries \<open>[0, 10, 20]\<close> the sample at elapsed 20 is labelled \<open>walking\<close>.
\<close>

theorem cut_final_boundary_counterexample:
  "cut [20] [0, 10, 20] [''sitting'', ''walking''] = Inr [Some ''walking'']"
  by code_simp

text \<open>
  C7, amended. For strictly increasing boundaries with one label fewer than boundaries,
  every value strictly beyond the final boundary or before the first boundary gets no
  label (the explicit unlabelled value), and the binning raises no error.
\<close>

theorem cut_outside_unlabelled:
  assumes srt: "sorted_wrt (<) bins" and len: "length labels + 1 = length bins"
    and k: "k < length x"
    and out: "x ! k < of_int (bins ! 0) \<or> of_int (last bins) < x ! k"
  shows "\<exists>ls. cut x bins labels = Inr ls \<and> ls ! k = None"
proof -
  from len have ne: "bins \<noteq> []" by auto
  from out have "x ! k \<le> of_int (bins ! 0) \<or> of_int (last bins) < x ! k" by auto
  from cut1_outside[OF srt ne this] have "cut1 bins labels (x ! k) = None" .
  with cut_ok[OF srt len, of x] k show ?thesis by simp
qed

theorem cut_outside_unlabelled_witness:
  "sorted_wrt (<) [0, 10, 20 :: int] \<and>
   length [''sitting'', ''walking''] + 1 = length [0, 10, 20 :: int] \<and>
   (1::nat) < length [-1, 25 :: rat] \<and>
   ([-1, 25 :: rat] ! 1 < of_int ([0, 10, 20] ! 0) \<or> of_int (last [0, 10, 20]) < [-1, 25 :: rat] ! 1) \<and>
   cut [-1, 25] [0, 10, 20] [''sitting'', ''walking''] = Inr [None, None] \<and>
   (\<exists>ls. cut [-1, 25] [0, 10, 20] [''sitting'', ''walking''] = Inr ls \<and> ls ! 1 = None)"
proof -
  have v: "cut [-1, 25] [0, 10, 20] [''sitting'', ''walking''] = Inr [None, None]" by code_simp
  have "\<exists>ls. cut [-1, 25] [0, 10, 20] [''sitting'', ''walking''] = Inr ls \<and> ls ! 1 = None"
    using cut_outside_unlabelled[of "[0, 10, 20]" "[''sitting'', ''walking'']" 1 "[-1, 25]"]
    by simp
  with v show ?thesis by simp
qed

text \<open>
  C5. From the table of peaks, lines 91 to 94 produce one row for each peak after the
  first, in order, with \<open>rr = elapsed[i] - elapsed[i-1]\<close>, \<open>bpm = 60 / rr\<close> (the float
  division \<open>rdiv\<close>, which is the quotient whenever the two times differ) and
  \<open>gemiddelde_tijd = (elapsed[i] + elapsed[i-1]) / 2\<close>; the first peak has no row. Peaks
  at \<open>1.0, 1.8, 2.7\<close> give two rows, with \<open>rr\<close> 0.8 and 0.9 and rates 75 and 200/3.
\<close>

theorem beat_intervals_values:
  "length (beat_intervals pk) = length pk - 1 \<and>
   map (\<lambda>b. (index b, row b)) (beat_intervals pk) = tl pk \<and>
   (\<forall>i. 0 < i \<and> i < length pk \<longrightarrow>
      rr (beat_intervals pk ! (i - 1)) = Fin (peak_times pk ! i - peak_times pk ! (i - 1)) \<and>
      bpm (beat_intervals pk ! (i - 1)) = rdiv 60 (rr (beat_intervals pk ! (i - 1))) \<and>
      (peak_times pk ! i \<noteq> peak_times pk ! (i - 1) \<longrightarrow>
         bpm (beat_intervals pk ! (i - 1)) =
           Fin (60 / (peak_times pk ! i - peak_times pk ! (i - 1)))) \<and>
      gemiddelde_tijd (beat_intervals pk ! (i - 1)) =
        Fin ((peak_times pk ! i + peak_times pk ! (i - 1)) / 2))"
proof (intro conjI allI impI)
  show "length (beat_intervals pk) = length pk - 1" by (rule length_beat_intervals)
  show "map (\<lambda>b. (index b, row b)) (beat_intervals pk) = tl pk" by (rule beat_intervals_rows)
next
  fix i assume "0 < i \<and> i < length pk"
  then have e: "beat_intervals pk ! (i - 1) =
     \<lparr>index = fst (pk ! i), row = snd (pk ! i),
      rr = Fin (peak_times pk ! i - peak_times pk ! (i - 1)),
      bpm = rdiv 60 (Fin (peak_times pk ! i - peak_times pk ! (i - 1))),
      gemiddelde_tijd = Fin ((peak_times pk ! (i - 1) + peak_times pk ! i) / 2)\<rparr>"
    by (intro beat_intervals_nth) simp_all
  show "rr (beat_intervals pk ! (i - 1)) = Fin (peak_times pk ! i - peak_times pk ! (i - 1))"
    unfolding e by simp
  show "bpm (beat_intervals pk ! (i - 1)) = rdiv 60 (rr (beat_intervals pk ! (i - 1)))"
    unfolding e by simp
  show "gemiddelde_tijd (beat_intervals pk ! (i - 1)) =
        Fin ((peak_times pk ! i + peak_times pk ! (i - 1)) / 2)"
    unfolding e by (simp add: add.commute)
  assume "peak_times pk ! i \<noteq> peak_times pk ! (i - 1)"
  then show "bpm (beat_intervals pk ! (i - 1)) =
           Fin (60 / (peak_times pk ! i - peak_times pk ! (i - 1)))"
    unfolding e by simp
qed

theorem beat_intervals_values_witness:
  "(0::nat) < 1 \<and> (1::nat) < length (peaks_at [1, 18 / 10, 27 / 10]) \<and>
   peak_times (peaks_at [1, 18 / 10, 27 / 10]) = [1, 18 / 10, 27 / 10] \<and>
   map (\<lambda>b. (index b, rr b, bpm b, gemiddelde_tijd b))
       (beat_intervals (peaks_at [1, 18 / 10, 27 / 10])) =
     [(1, Fin (8 / 10), Fin 75, Fin (14 / 10)), (2, Fin (9 / 10), Fin (200 / 3), Fin (225 / 100))] \<and>
   length (beat_intervals (peaks_at [1, 18 / 10, 27 / 10])) =
     length (peaks_at [1, 18 / 10, 27 / 10]) - 1 \<and>
   rr (beat_intervals (peaks_at [1, 18 / 10, 27 / 10]) ! (1 - 1)) =
     Fin (peak_times (peaks_at [1, 18 / 10, 27 / 10]) ! 1 -
          peak_times (peaks_at [1, 18 / 10, 27 / 10]) ! (1 - 1))"
proof -
  have a: "(1::nat) < length (peaks_at [1, 18 / 10, 27 / 10])" by code_simp
  have b: "peak_times (peaks_at [1, 18 / 10, 27 / 10]) = [1, 18 / 10, 27 / 10]" by code_simp
  have c: "map (\<lambda>b. (index b, rr b, bpm b, gemiddelde_tijd b))
       (beat_intervals (peaks_at [1, 18 / 10, 27 / 10])) =
     [(1, Fin (8 / 10), Fin 75, Fin (14 / 10)), (2, Fin (9 / 10), Fin (200 / 3), Fin (225 / 100))]"
    by code_simp
  from beat_intervals_values[of "peaks_at [1, 18 / 10, 27 / 10]"] a
  have "length (beat_intervals (peaks_at [1, 18 / 10, 27 / 10])) =
     length (peaks_at [1, 18 / 10, 27 / 10]) - 1 \<and>
   rr (beat_intervals (peaks_at [1, 18 / 10, 27 / 10]) ! (1 - 1)) =
     Fin (peak_times (peaks_at [1, 18 / 10, 27 / 10]) ! 1 -
          peak_times (peaks_at [1, 18 / 10, 27 / 10]) ! (1 - 1))"
    by blast
  with a b c show ?thesis by simp
qed

text \<open>
  C2, as the code has it. Only rows whose \<open>rr\<close> is \<^verbatim>\<open>NaN\<close> are removed (line 94). Two
  peaks at the same elapsed time (equal \<^verbatim>\<open>time\<close> ticks) give a row with \<open>rr = 0\<close> and
  an infinite rate, and that row is kept.
\<close>

theorem zero_interval_retained_counterexample:
  "map (\<lambda>b. (index b, rr b, bpm b))
     (the (df_ecg_pieken (snd (snd (initialize_data
        (Inr (frame_of [(0, 0), (1, 5), (1, 0), (1, 5), (1, 0)])) None empty_session))))) =
   [(3, Fin 0, PInf)]"
  by code_simp

text \<open>
  C2, amended. The rows kept are exactly those of the peaks after the first. Every
  retained beat has an \<open>rr\<close> that is not \<^verbatim>\<open>NaN\<close> and has \<open>bpm = 60 / rr\<close> in float
  division, which is \<open>+inf\<close> for \<open>rr = 0\<close>; when the elapsed times of the peaks increase
  strictly, every retained beat has \<open>rr > 0\<close> and \<open>bpm\<close> is exactly the quotient \<open>60 / rr\<close>.
\<close>

theorem retained_beats_rate:
  "map (\<lambda>b. (index b, row b)) (beat_intervals pk) = tl pk \<and>
   (\<forall>b\<in>set (beat_intervals pk).
      rr b \<noteq> NaN \<and> bpm b = rdiv 60 (rr b) \<and> (rr b = Fin 0 \<longrightarrow> bpm b = PInf)) \<and>
   (sorted_wrt (<) (peak_times pk) \<longrightarrow>
      (\<forall>b\<in>set (beat_intervals pk). \<exists>r. 0 < r \<and> rr b = Fin r \<and> bpm b = Fin (60 / r)))"
proof (intro conjI impI ballI)
  show "map (\<lambda>b. (index b, row b)) (beat_intervals pk) = tl pk" by (rule beat_intervals_rows)
next
  fix b assume "b \<in> set (beat_intervals pk)"
  then obtain i where i: "0 < i" "i < length pk" "b = beat_intervals pk ! (i - 1)"
    by (rule beat_intervals_mem)
  from beat_intervals_nth[OF i(1,2)] i(3)
  show "rr b \<noteq> NaN" and r: "bpm b = rdiv 60 (rr b)" by simp_all
  assume "rr b = Fin 0"
  with r show "bpm b = PInf" by simp
next
  fix b assume srt: "sorted_wrt (<) (peak_times pk)" and "b \<in> set (beat_intervals pk)"
  then obtain i where i: "0 < i" "i < length pk" "b = beat_intervals pk ! (i - 1)"
    by (elim beat_intervals_mem)
  define r where "r = peak_times pk ! i - peak_times pk ! (i - 1)"
  have "length (peak_times pk) = length pk" unfolding peak_times_def by simp
  with i have "i - 1 < i" "i < length (peak_times pk)" by simp_all
  from sorted_wrt_nth_less[OF srt this] have pos: "0 < r" unfolding r_def by simp
  from beat_intervals_nth[OF i(1,2)] i(3) pos
  have "rr b = Fin r \<and> bpm b = Fin (60 / r)" unfolding r_def by simp
  with pos show "\<exists>r. 0 < r \<and> rr b = Fin r \<and> bpm b = Fin (60 / r)" by blast
qed

theorem retained_beats_rate_witness:
  "sorted_wrt (<) (peak_times (peaks_at [1, 18 / 10, 27 / 10])) \<and>
   length (beat_intervals (peaks_at [1, 18 / 10, 27 / 10])) = 2 \<and>
   rr (beat_intervals (peaks_at [1, 18 / 10, 27 / 10]) ! 1) \<noteq> NaN \<and>
   bpm (beat_intervals (peaks_at [1, 18 / 10, 27 / 10]) ! 1) =
     rdiv 60 (rr (beat_intervals (peaks_at [1, 18 / 10, 27 / 10]) ! 1)) \<and>
   (\<exists>r. 0 < r \<and> rr (beat_intervals (peaks_at [1, 18 / 10, 27 / 10]) ! 1) = Fin r \<and>
        bpm (beat_intervals (peaks_at [1, 18 / 10, 27 / 10]) ! 1) = Fin (60 / r))"
proof -
  have a: "sorted_wrt (<) (peak_times (peaks_at [1, 18 / 10, 27 / 10]))" by code_simp
  have b: "length (beat_intervals (peaks_at [1, 18 / 10, 27 / 10])) = 2" by code_simp
  then have m: "beat_intervals (peaks_at [1, 18 / 10, 27 / 10]) ! 1
      \<in> set (beat_intervals (peaks_at [1, 18 / 10, 27 / 10]))"
    by (intro nth_mem) simp
  from retained_beats_rate[of "peaks_at [1, 18 / 10, 27 / 10]"] a m b show ?thesis by blast
qed

text \<open>
  C6, as the code has it. In the signal \<open>0, 2, 2, 3, 0\<close> with fraction 0.6 the sample at
  position 1 is at least as large as both neighbours, strictly larger than the one before
  it and not below the threshold, and it is not returned: only position 3 is. In
  \<open>0, 2, 2, 2, 0\<close> the position returned is 2, a sample that is strictly larger than
  neither of its neighbours.
\<close>

theorem local_maximum_counterexample:
  "map_sum id (map fst) (detecteer_Rpieken (labelled [0, 2, 2, 3, 0]) (6 / 10)) = Inr [3] \<and>
   [0, 2, 2, 3, 0 :: rat] ! 0 < [0, 2, 2, 3, 0] ! 1 \<and>
   [0, 2, 2, 3, 0 :: rat] ! 2 \<le> [0, 2, 2, 3, 0] ! 1 \<and>
   6 / 10 * Max (set [0, 2, 2, 3, 0 :: rat]) \<le> [0, 2, 2, 3, 0] ! 1 \<and>
   map_sum id (map fst) (detecteer_Rpieken (labelled [0, 2, 2, 2, 0]) (6 / 10)) = Inr [2] \<and>
   \<not> [0, 2, 2, 2, 0 :: rat] ! 1 < [0, 2, 2, 2, 0] ! 2 \<and>
   \<not> [0, 2, 2, 2, 0 :: rat] ! 3 < [0, 2, 2, 2, 0] ! 2"
  by code_simp

text \<open>
  C6, amended. For every table with an \<^verbatim>\<open>ECG\<close> column and at least one row and every
  fraction \<open>p\<close>, the detector computes the threshold \<open>p * max(ECG)\<close> and returns, in
  strictly increasing order of position, the rows at the midpoints (rounded down) of the
  plateaus of equal samples that lie strictly inside the signal, have a strictly lower
  sample directly before and directly after them, and whose value at the midpoint is at
  least the threshold; one position for each such plateau.
\<close>

theorem detecteer_Rpieken_plateau_midpoints:
  assumes col: "''ECG'' \<in> set (columns df)" and ne: "rows df \<noteq> []"
  shows "\<exists>pk. detecteer_Rpieken df p = Inr pk \<and> sorted_wrt (<) (map fst pk) \<and>
     set (map fst pk) =
       {m. \<exists>l r. plateau_peak (ecg_column df) l r \<and> m = (l + r) div 2 \<and>
                  p * Max (set (ecg_column df)) \<le> ecg_column df ! m} \<and>
     (\<forall>(i, r)\<in>set pk. r = rows df ! i)"
proof -
  define ps where "ps = find_peaks (ecg_column df) (p * Max (set (ecg_column df)))"
  define pk where "pk = map (\<lambda>p. (p, rows df ! p)) ps"
  have d: "detecteer_Rpieken df p = Inr pk"
    unfolding pk_def ps_def by (rule detecteer_Rpieken_ok[OF col ne])
  have f: "map fst pk = ps" unfolding pk_def by (simp add: comp_def)
  have s: "sorted_wrt (<) (map fst pk)" unfolding f ps_def by (rule sorted_find_peaks)
  have e: "set (map fst pk) =
       {m. \<exists>l r. plateau_peak (ecg_column df) l r \<and> m = (l + r) div 2 \<and>
                  p * Max (set (ecg_column df)) \<le> ecg_column df ! m}"
    unfolding f ps_def by (rule set_find_peaks)
  have r: "\<forall>(i, r)\<in>set pk. r = rows df ! i" unfolding pk_def by auto
  from d s e r show ?thesis by blast
qed

theorem detecteer_Rpieken_plateau_midpoints_witness:
  "''ECG'' \<in> set (columns (labelled [0, 2, 2, 2, 0, 3, 3, 1, 5])) \<and>
   rows (labelled [0, 2, 2, 2, 0, 3, 3, 1, 5]) \<noteq> [] \<and>
   map_sum id (map fst) (detecteer_Rpieken (labelled [0, 2, 2, 2, 0, 3, 3, 1, 5]) (6 / 10)) = Inr [5] \<and>
   (\<exists>pk. detecteer_Rpieken (labelled [0, 2, 2, 2, 0, 3, 3, 1, 5]) (6 / 10) = Inr pk \<and>
      sorted_wrt (<) (map fst pk) \<and>
      set (map fst pk) =
       {m. \<exists>l r. plateau_peak (ecg_column (labelled [0, 2, 2, 2, 0, 3, 3, 1, 5])) l r \<and>
                  m = (l + r) div 2 \<and>
                  6 / 10 * Max (set (ecg_column (labelled [0, 2, 2, 2, 0, 3, 3, 1, 5])))
                    \<le> ecg_column (labelled [0, 2, 2, 2, 0, 3, 3, 1, 5]) ! m})"
proof -
  have a: "''ECG'' \<in> set (columns (labelled [0, 2, 2, 2, 0, 3, 3, 1, 5]))" by code_simp
  have b: "rows (labelled [0, 2, 2, 2, 0, 3, 3, 1, 5]) \<noteq> []" by code_simp
  have c: "map_sum id (map fst)
     (detecteer_Rpieken (labelled [0, 2, 2, 2, 0, 3, 3, 1, 5]) (6 / 10)) = Inr [5]"
    by code_simp
  from detecteer_Rpieken_plateau_midpoints[OF a b, of "6 / 10"] a b c show ?thesis by blast
qed

text \<open>
  C3, as the code has it. On a table without rows \<^verbatim>\<open>detecteer_Rpieken\<close> raises
  \<^verbatim>\<open>ValueError\<close> (\<^verbatim>\<open>max\<close> of an empty column), and \<^verbatim>\<open>initialize_data\<close> already fails at
  \<^verbatim>\<open>time.iloc[0]\<close> with \<^verbatim>\<open>IndexError\<close>, which it catches and reports.
\<close>

theorem empty_input_counterexample:
  "detecteer_Rpieken (labelled []) (6 / 10) = Inl ValueError \<and>
   initialize_data (Inr (frame_of [])) None empty_session =
     (Some False, [Error_fout_opgetreden IndexError], set_config empty_session)"
  by code_simp

text \<open>
  C3, amended. For an empty input the step of lines 91 to 94 returns an empty table of
  beats for an empty table of peaks; \<^verbatim>\<open>detecteer_Rpieken\<close> raises \<^verbatim>\<open>ValueError\<close>; and a
  run of \<^verbatim>\<open>initialize_data\<close> on a session that is not yet initialised raises
  \<^verbatim>\<open>IndexError\<close> inside its \<^verbatim>\<open>try\<close>, reports that one error, returns \<open>False\<close> and
  stores neither table nor the initialised flag.
\<close>

theorem empty_input_reported:
  "beat_intervals [] = [] \<and>
   (''ECG'' \<in> set (columns df) \<and> rows df = [] \<longrightarrow> detecteer_Rpieken df p = Inl ValueError) \<and>
   (data_initialized s = None \<and> (case u of Some f \<Rightarrow> f | None \<Rightarrow> d) = Inr df0 \<and>
    ''time'' \<in> set (columns df0) \<and> rows df0 = [] \<longrightarrow>
      initialize_data d u s =
        (Some False, [Error_fout_opgetreden IndexError], set_config s) \<and>
      df_ecg (set_config s) = df_ecg s \<and> df_ecg_pieken (set_config s) = df_ecg_pieken s \<and>
      data_initialized (set_config s) = None)"
proof (intro conjI impI)
  show "beat_intervals [] = []" unfolding beat_intervals_eq by simp
next
  assume "''ECG'' \<in> set (columns df) \<and> rows df = []"
  then show "detecteer_Rpieken df p = Inl ValueError"
    unfolding detecteer_Rpieken_def getitem_def by simp
next
  assume h: "data_initialized s = None \<and> (case u of Some f \<Rightarrow> f | None \<Rightarrow> d) = Inr df0 \<and>
    ''time'' \<in> set (columns df0) \<and> rows df0 = []"
  then have "try_body d u (set_config s) = Inl IndexError"
    unfolding try_body_def getitem_def by simp
  with h show "initialize_data d u s =
        (Some False, [Error_fout_opgetreden IndexError], set_config s)"
    unfolding initialize_data_def by (simp add: Let_def)
  show "df_ecg (set_config s) = df_ecg s" by (rule set_config_keeps)
  show "df_ecg_pieken (set_config s) = df_ecg_pieken s" by (rule set_config_keeps)
  from h show "data_initialized (set_config s) = None" by (simp add: set_config_keeps)
qed

theorem empty_input_reported_witness:
  "''ECG'' \<in> set (columns (labelled [])) \<and> rows (labelled []) = [] \<and>
   detecteer_Rpieken (labelled []) (6 / 10) = Inl ValueError \<and>
   data_initialized empty_session = None \<and>
   ''time'' \<in> set (columns (frame_of [])) \<and> rows (frame_of []) = [] \<and>
   initialize_data (Inl ReadError) (Some (Inr (frame_of []))) empty_session =
     (Some False, [Error_fout_opgetreden IndexError], set_config empty_session)"
proof -
  have a: "''ECG'' \<in> set (columns (labelled [])) \<and> rows (labelled []) = []" by code_simp
  have b: "data_initialized empty_session = None \<and>
    ''time'' \<in> set (columns (frame_of [])) \<and> rows (frame_of []) = []" by code_simp
  from empty_input_reported[where df = "labelled []" and p = "6 / 10" and s = empty_session
      and u = "Some (Inr (frame_of []))" and d = "Inl ReadError" and ?df0.0 = "frame_of []"] a b
  show ?thesis by simp
qed

text \<open>
  C8. In every session state the program reaches, when the body of the \<^verbatim>\<open>try\<close> raises an
  exception \<open>e\<close> (in loading or in processing), \<^verbatim>\<open>initialize_data\<close> returns \<open>False\<close>,
  puts exactly one error message on the page, the one that carries \<open>e\<close>, and the stored
  sample table, beat table and initialised flag are all unset afterwards; and a run that
  returns \<open>False\<close> is such a run. The three keys are assigned only in lines 97 to 99,
  after all processing; the configuration keys of lines 38 to 76 are written before the
  \<^verbatim>\<open>try\<close> and are not artifacts of the run.
\<close>

theorem failure_stores_nothing:
  assumes "reachable s"
  shows "(data_initialized s = None \<and> try_body d u (set_config s) = Inl e \<longrightarrow>
            (\<exists>s'. initialize_data d u s = (Some False, [Error_fout_opgetreden e], s') \<and>
                  df_ecg s' = None \<and> df_ecg_pieken s' = None \<and> data_initialized s' = None)) \<and>
         (initialize_data d u s = (Some False, out, t) \<longrightarrow>
            (\<exists>x. try_body d u (set_config s) = Inl x \<and> out = [Error_fout_opgetreden x]) \<and>
            df_ecg t = None \<and> df_ecg_pieken t = None \<and> data_initialized t = None)"
proof (intro conjI impI)
  assume h: "data_initialized s = None \<and> try_body d u (set_config s) = Inl e"
  with reachable_unset[OF assms] have "df_ecg s = None" "df_ecg_pieken s = None" by simp_all
  with h initialize_data_failure[of s d u e]
  show "\<exists>s'. initialize_data d u s = (Some False, [Error_fout_opgetreden e], s') \<and>
             df_ecg s' = None \<and> df_ecg_pieken s' = None \<and> data_initialized s' = None"
    by (simp add: set_config_keeps)
next
  assume r: "initialize_data d u s = (Some False, out, t)"
  then have "(\<exists>x. try_body d u (set_config s) = Inl x \<and> out = [Error_fout_opgetreden x]) \<and>
            df_ecg t = None \<and> df_ecg_pieken t = None \<and> data_initialized t = None"
  proof (cases rule: initialize_data_cases[of s d u])
    case guard
    with r show ?thesis by simp
  next
    case (failure x)
    with r have t: "t = set_config s" and o: "out = [Error_fout_opgetreden x]" by simp_all
    from reachable_unset[OF assms failure(1)] failure(1)
    have "df_ecg t = None \<and> df_ecg_pieken t = None \<and> data_initialized t = None"
      unfolding t by (simp add: set_config_keeps)
    with failure(2) o show ?thesis by blast
  next
    case (success df pk)
    with r show ?thesis by simp
  qed
  then show "\<exists>x. try_body d u (set_config s) = Inl x \<and> out = [Error_fout_opgetreden x]"
    and "df_ecg t = None" and "df_ecg_pieken t = None" and "data_initialized t = None"
    by simp_all
qed

theorem failure_stores_nothing_witness:
  "reachable empty_session \<and> data_initialized empty_session = None \<and>
   try_body (Inl ReadError) (Some (Inr (frame_of [(0, 1)]\<lparr>columns := [''time'']\<rparr>)))
     (set_config empty_session) = Inl (KeyError ''ECG'') \<and>
   initialize_data (Inl ReadError) (Some (Inr (frame_of [(0, 1)]\<lparr>columns := [''time'']\<rparr>)))
     empty_session =
     (Some False, [Error_fout_opgetreden (KeyError ''ECG'')], set_config empty_session) \<and>
   df_ecg (set_config empty_session) = None \<and> df_ecg_pieken (set_config empty_session) = None \<and>
   data_initialized (set_config empty_session) = None"
proof -
  have a: "data_initialized empty_session = None" by code_simp
  have b: "try_body (Inl ReadError) (Some (Inr (frame_of [(0, 1)]\<lparr>columns := [''time'']\<rparr>)))
     (set_config empty_session) = Inl (KeyError ''ECG'')" by code_simp
  have c: "initialize_data (Inl ReadError)
     (Some (Inr (frame_of [(0, 1)]\<lparr>columns := [''time'']\<rparr>))) empty_session =
     (Some False, [Error_fout_opgetreden (KeyError ''ECG'')], set_config empty_session)"
    by code_simp
  from failure_stores_nothing[OF reachable.fresh, where d = "Inl ReadError"
      and u = "Some (Inr (frame_of [(0, 1)]\<lparr>columns := [''time'']\<rparr>))"
      and e = "KeyError ''ECG''"
      and out = "[Error_fout_opgetreden (KeyError ''ECG'')]" and t = "set_config empty_session"]
    a b c reachable.fresh
  show ?thesis by simp
qed

text \<open>
  C9. After a successful run, every beat of the stored beat table carries the index of a
  row of the stored sample table and is that row, so the activity label of the beat is
  the label of the sample at the beat's position; both are the label that the one
  boundary and label table of the session assigns to the row's elapsed time.
\<close>

theorem beat_labels_agree:
  assumes ok: "initialize_data d u s = (Some True, out, s')"
  shows "\<exists>df bs. df_ecg s' = Some df \<and> df_ecg_pieken s' = Some bs \<and>
      (\<forall>b\<in>set bs. index b < length (rows df) \<and> row b = rows df ! index b \<and>
          activiteit (row b) = activiteit (rows df ! index b) \<and>
          activiteit (row b) =
            cut1 (the (intervallen s')) (the (activiteiten s')) (timestamp (row b))) \<and>
      (\<forall>i<length (rows df).
          activiteit (rows df ! i) =
            cut1 (the (intervallen s')) (the (activiteiten s')) (timestamp (rows df ! i)))"
proof (cases rule: initialize_data_cases[of s d u])
  case guard
  with ok show ?thesis by simp
next
  case (failure e)
  with ok show ?thesis by simp
next
  case (success df bs)
  with ok have s': "s' = (set_config s)\<lparr>df_ecg := Some df, df_ecg_pieken := Some bs,
                          data_initialized := Some True\<rparr>" by simp
  have iv: "intervallen s' = intervallen (set_config s)"
    and av: "activiteiten s' = activiteiten (set_config s)"
    and d1: "df_ecg s' = Some df" and d2: "df_ecg_pieken s' = Some bs"
    unfolding s' by simp_all
  from try_body_Inr(1)[OF success(2)]
  have lab: "\<forall>i<length (rows df). activiteit (rows df ! i) =
      cut1 (the (intervallen s')) (the (activiteiten s')) (timestamp (rows df ! i))"
    unfolding iv av .
  from try_body_Inr(2)[OF success(2)] obtain ps where
    bs: "bs = beat_intervals (map (\<lambda>p. (p, rows df ! p)) ps)"
    and ps: "\<forall>p\<in>set ps. p < length (rows df)" by blast
  have each: "index b < length (rows df) \<and> row b = rows df ! index b" if "b \<in> set bs" for b
  proof -
    from that have "(index b, row b) \<in> set (map (\<lambda>b. (index b, row b)) bs)" by force
    then have "(index b, row b) \<in> set (tl (map (\<lambda>p. (p, rows df ! p)) ps))"
      unfolding bs beat_intervals_rows .
    then have "(index b, row b) \<in> set (map (\<lambda>p. (p, rows df ! p)) ps)"
      by (cases "map (\<lambda>p. (p, rows df ! p)) ps") simp_all
    with ps show ?thesis by auto
  qed
  have "index b < length (rows df) \<and> row b = rows df ! index b \<and>
          activiteit (row b) = activiteit (rows df ! index b) \<and>
          activiteit (row b) =
            cut1 (the (intervallen s')) (the (activiteiten s')) (timestamp (row b))"
    if "b \<in> set bs" for b
    using each[OF that] lab by simp
  with lab d1 d2 show ?thesis by blast
qed

theorem beat_labels_agree_witness:
  "initialize_data (Inr example_file) None empty_session =
     (Some True, [], snd (snd (initialize_data (Inr example_file) None empty_session))) \<and>
   map (\<lambda>b. (index b, timestamp (row b), activiteit (row b)))
     (the (df_ecg_pieken (snd (snd (initialize_data (Inr example_file) None empty_session))))) =
     [(3, 3, Some ''zitten'')] \<and>
   map activiteit
     (rows (the (df_ecg (snd (snd (initialize_data (Inr example_file) None empty_session)))))) =
     [None, Some ''zitten'', Some ''zitten'', Some ''zitten'', Some ''zitten''] \<and>
   (\<exists>df bs. df_ecg (snd (snd (initialize_data (Inr example_file) None empty_session))) = Some df \<and>
      df_ecg_pieken (snd (snd (initialize_data (Inr example_file) None empty_session))) = Some bs \<and>
      (\<forall>b\<in>set bs. index b < length (rows df) \<and> row b = rows df ! index b \<and>
          activiteit (row b) = activiteit (rows df ! index b)))"
proof -
  have a: "initialize_data (Inr example_file) None empty_session =
     (Some True, [], snd (snd (initialize_data (Inr example_file) None empty_session)))"
    by code_simp
  have b: "map (\<lambda>b. (index b, timestamp (row b), activiteit (row b)))
     (the (df_ecg_pieken (snd (snd (initialize_data (Inr example_file) None empty_session))))) =
     [(3, 3, Some ''zitten'')]" by code_simp
  have c: "map activiteit
     (rows (the (df_ecg (snd (snd (initialize_data (Inr example_file) None empty_session)))))) =
     [None, Some ''zitten'', Some ''zitten'', Some ''zitten'', Some ''zitten'']" by code_simp
  from beat_labels_agree[OF a]
  have "\<exists>df bs. df_ecg (snd (snd (initialize_data (Inr example_file) None empty_session))) = Some df \<and>
      df_ecg_pieken (snd (snd (initialize_data (Inr example_file) None empty_session))) = Some bs \<and>
      (\<forall>b\<in>set bs. index b < length (rows df) \<and> row b = rows df ! index b \<and>
          activiteit (row b) = activiteit (rows df ! index b))"
    by blast
  with a b c show ?thesis by blast
qed

text \<open>
  C4, as the code has it. Once a run has stored its results, \<^verbatim>\<open>initialize_data\<close> falls
  through its guard on \<^verbatim>\<open>data_initialized\<close> and returns \<open>None\<close>: a later page run with
  an uploaded file recomputes nothing, leaves the session state as it was and shows the
  message that loading went wrong. In the example the default file is loaded first and
  the upload of another file keeps the default file's tables; on a fresh session the same
  upload is loaded and reported as a success.
\<close>

theorem upload_after_initialisation_ignored:
  "data_initialized s \<noteq> None \<Longrightarrow> homepage_upload d (Some f) s = ([Error_misgegaan], s)"
  unfolding homepage_upload_def by (simp add: initialize_data_guard)

theorem upload_after_initialisation_ignored_witness:
  "data_initialized (snd (homepage_upload (Inr example_file) None empty_session)) = Some True \<and>
   fst (homepage_upload (Inr example_file) None empty_session) = [Info_standaarddata] \<and>
   homepage_upload (Inr example_file) (Some (Inr other_file))
       (snd (homepage_upload (Inr example_file) None empty_session)) =
     ([Error_misgegaan], snd (homepage_upload (Inr example_file) None empty_session)) \<and>
   map_option (\<lambda>df. map (\<lambda>r. ECG (sample r)) (rows df))
       (df_ecg (snd (homepage_upload (Inr example_file) None empty_session))) =
     Some [0, 5, 0, 7, 0] \<and>
   fst (homepage_upload (Inr example_file) (Some (Inr other_file)) empty_session) =
     [Success_geladen] \<and>
   map_option (\<lambda>df. map (\<lambda>r. ECG (sample r)) (rows df))
       (df_ecg (snd (homepage_upload (Inr example_file) (Some (Inr other_file)) empty_session))) =
     Some [0, 9, 0]"
proof -
  have a: "data_initialized (snd (homepage_upload (Inr example_file) None empty_session)) =
      Some True" by code_simp
  have b: "fst (homepage_upload (Inr example_file) None empty_session) = [Info_standaarddata]"
    by code_simp
  have c: "map_option (\<lambda>df. map (\<lambda>r. ECG (sample r)) (rows df))
       (df_ecg (snd (homepage_upload (Inr example_file) None empty_session))) =
     Some [0, 5, 0, 7, 0]" by code_simp
  have d: "fst (homepage_upload (Inr example_file) (Some (Inr other_file)) empty_session) =
     [Success_geladen]" by code_simp
  have e: "map_option (\<lambda>df. map (\<lambda>r. ECG (sample r)) (rows df))
       (df_ecg (snd (homepage_upload (Inr example_file) (Some (Inr other_file)) empty_session))) =
     Some [0, 9, 0]" by code_simp
  from a have n: "data_initialized (snd (homepage_upload (Inr example_file) None empty_session))
      \<noteq> None" by simp
  from upload_after_initialisation_ignored[OF n, of "Inr example_file" "Inr other_file"]
    a b c d e show ?thesis by simp
qed

end
